theory Spec2Isabelle
  imports Main "HOL-Library.Sublist"
begin

section \<open>Python values and string operations used by tiddlywebplugins.markdown\<close>

text \<open>
  Strings are byte strings (\<open>char list\<close>), as Python 2's \<open>str\<close>; the character classes of
  the regular expressions are the ASCII ones (\<open>re\<close> without the UNICODE flag).
  Exceptions are values of \<open>error\<close>; a function that can raise returns \<open>error + 'a\<close> with
  \<open>Inl\<close> for the exception. \<open>External\<close> is whatever the tenant resolver raises.
\<close>

datatype error = ValueError | IndexError | NameError | ReError | External string

text \<open>The slice \<open>s[i:j]\<close> for non-negative indices.\<close>

definition slice :: "string \<Rightarrow> nat \<Rightarrow> nat \<Rightarrow> string" where
  "slice s i j = take (j - i) (drop i s)"

text \<open>
  \<open>s.replace(old, new)\<close>: every non-overlapping occurrence of \<open>old\<close>, scanning from the
  left. With an empty \<open>old\<close> Python puts \<open>new\<close> before every character and at the end.
\<close>

fun replace_from :: "char \<Rightarrow> string \<Rightarrow> string \<Rightarrow> string \<Rightarrow> string" where
  "replace_from c0 cs new [] = []"
| "replace_from c0 cs new (x # xs) =
     (if prefix (c0 # cs) (x # xs) then new @ replace_from c0 cs new (drop (length cs) xs)
      else x # replace_from c0 cs new xs)"

fun py_replace :: "string \<Rightarrow> string \<Rightarrow> string \<Rightarrow> string" where
  "py_replace [] new s = new @ concat (map (\<lambda>x. x # new) s)"
| "py_replace (c0 # cs) new s = replace_from c0 cs new s"

text \<open>\<open>s.split(sep, 1)\<close> for a one-character separator: at most one split, at the first \<open>sep\<close>.\<close>

fun split1 :: "char \<Rightarrow> string \<Rightarrow> string list" where
  "split1 sep [] = [[]]"
| "split1 sep (c # cs) =
     (if c = sep then [[], cs]
      else (case split1 sep cs of
              [] \<Rightarrow> [[c]]
            | a # rest \<Rightarrow> (c # a) # rest))"

text \<open>The unpacking \<open>a, b = xs\<close>: ValueError unless \<open>xs\<close> has exactly two items.\<close>

fun unpack2 :: "'a list \<Rightarrow> error + ('a \<times> 'a)" where
  "unpack2 [a, b] = Inr (a, b)"
| "unpack2 xs = Inl ValueError"

section \<open>Match objects and the patterns of PATTERNS\<close>

record re_match =
  span :: "nat \<times> nat"
  groups :: "string list"

text \<open>The keys of the module's PATTERNS dictionary; each stands for its compiled pattern.\<close>

datatype regex = Freelink | Wikilink | Barelink | Spacelink | Spacewikilink | Spacefreelink

definition is_space :: "char \<Rightarrow> bool" where
  "is_space c \<longleftrightarrow> c \<in> set [CHR '' '', CHR 0x09, CHR 0x0A, CHR 0x0B, CHR 0x0C, CHR 0x0D]"

definition is_upper :: "char \<Rightarrow> bool" where
  "is_upper c \<longleftrightarrow> 65 \<le> (of_char c :: nat) \<and> (of_char c :: nat) \<le> 90"

definition is_lower :: "char \<Rightarrow> bool" where
  "is_lower c \<longleftrightarrow> 97 \<le> (of_char c :: nat) \<and> (of_char c :: nat) \<le> 122"

definition is_digit :: "char \<Rightarrow> bool" where
  "is_digit c \<longleftrightarrow> 48 \<le> (of_char c :: nat) \<and> (of_char c :: nat) \<le> 57"

text \<open>\<open>\w\<close>\<close>

definition is_word :: "char \<Rightarrow> bool" where
  "is_word c \<longleftrightarrow> is_upper c \<or> is_lower c \<or> is_digit c \<or> c = CHR ''_''"

text \<open>\<open>[0-9a-z]\<close> and \<open>[0-9a-z\-]\<close>\<close>

definition is_tenant_end :: "char \<Rightarrow> bool" where
  "is_tenant_end c \<longleftrightarrow> is_digit c \<or> is_lower c"

definition is_tenant_mid :: "char \<Rightarrow> bool" where
  "is_tenant_mid c \<longleftrightarrow> is_digit c \<or> is_lower c \<or> c = CHR ''-''"

text \<open>\<open>[-\w./#?%=&]\<close>\<close>

definition is_url_char :: "char \<Rightarrow> bool" where
  "is_url_char c \<longleftrightarrow> is_word c \<or> c \<in> set ''-./#?%=&''"

text \<open>
  \<open>(.+?)\]\]\<close> followed by the rest of the pattern, \<open>cont\<close>, tried on what follows the
  brackets: the lazy group takes one character that is not a newline, then tries the
  brackets and the rest, and takes one more character whenever they fail. The result
  is the length of the group and what \<open>cont\<close> returned.
\<close>

fun lazy_body :: "(string \<Rightarrow> 'a option) \<Rightarrow> string \<Rightarrow> (nat \<times> 'a) option" where
  "lazy_body cont [] = None"
| "lazy_body cont (c # cs) =
     (if c = CHR 0x0A then None
      else (case (if prefix '']]'' cs then cont (drop 2 cs) else None) of
              Some r \<Rightarrow> Some (1, r)
            | None \<Rightarrow> map_option (\<lambda>(k, r). (Suc k, r)) (lazy_body cont cs)))"

text \<open>
  \<open>[A-Z][a-z]+[A-Z]\w+\<close> at the start of \<open>s\<close>: both repetitions are greedy and what
  follows them (an upper-case letter, then a word boundary or \<open>@\<close>) cannot match a
  character they give back, so only the longest runs can match. The result is the word.
\<close>

definition wikiword :: "string \<Rightarrow> string option" where
  "wikiword s =
     (case s of
        [] \<Rightarrow> None
      | c # r \<Rightarrow>
          if \<not> is_upper c then None
          else let lows = takeWhile is_lower r in
            if lows = [] then None
            else (case dropWhile is_lower r of
                    [] \<Rightarrow> None
                  | u # w \<Rightarrow>
                      if \<not> is_upper u then None
                      else let ws = takeWhile is_word w in
                        if ws = [] then None else Some (c # lows @ u # ws)))"

text \<open>
  \<open>https?://[-\w./#?%=&]+\<close> at the start of \<open>s\<close>; the result is the URL matched.
\<close>

definition bareurl :: "string \<Rightarrow> string option" where
  "bareurl s =
     (if \<not> prefix ''http'' s then None
      else let r = drop 4 s;
               scheme = (if prefix ''s'' r then ''https'' else ''http'');
               r' = drop (length scheme) s in
        if \<not> prefix ''://'' r' then None
        else let u = takeWhile is_url_char (drop 3 r') in
          if u = [] then None else Some (scheme @ ''://'' @ u))"

text \<open>
  \<open>@([0-9a-z][0-9a-z\-]*[0-9a-z])(?:\s|$)\<close> at the start of \<open>s\<close>: the name is the whole
  run of \<open>[0-9a-z\-]\<close> (a shorter one is followed by a character of the run, which is
  neither white space nor the end), at least two characters long, with no hyphen at
  either end. The result is the name and the number of characters consumed, the
  white space after the name included.
\<close>

definition tenant_suffix :: "string \<Rightarrow> (string \<times> nat) option" where
  "tenant_suffix s =
     (case s of
        [] \<Rightarrow> None
      | a # r \<Rightarrow>
          if a \<noteq> CHR ''@'' then None
          else let name = takeWhile is_tenant_mid r in
            if length name < 2 \<or> \<not> is_tenant_end (hd name) \<or> \<not> is_tenant_end (last name)
            then None
            else (case dropWhile is_tenant_mid r of
                    [] \<Rightarrow> Some (name, Suc (length name))
                  | c # _ \<Rightarrow>
                      if is_space c then Some (name, Suc (Suc (length name))) else None))"

text \<open>
  \<open>(?:^|\s)\<close> before \<open>body\<close>: at position 0 the empty alternative is tried first, then
  one white-space character. \<open>body\<close> returns the groups and the characters consumed.
\<close>

definition with_lead :: "string \<Rightarrow> nat \<Rightarrow> (string \<Rightarrow> (string list \<times> nat) option) \<Rightarrow> re_match option" where
  "with_lead text pos body =
     (case (if pos = 0 then body text else None) of
        Some (gs, n) \<Rightarrow> Some \<lparr>span = (pos, pos + n), groups = gs\<rparr>
      | None \<Rightarrow>
          if pos < length text \<and> is_space (text ! pos)
          then (case body (drop (Suc pos) text) of
                  Some (gs, n) \<Rightarrow> Some \<lparr>span = (pos, Suc pos + n), groups = gs\<rparr>
                | None \<Rightarrow> None)
          else None)"

definition spacelink_body :: "string \<Rightarrow> (string list \<times> nat) option" where
  "spacelink_body s = map_option (\<lambda>(name, n). ([name], n)) (tenant_suffix s)"

definition spacewikilink_body :: "string \<Rightarrow> (string list \<times> nat) option" where
  "spacewikilink_body s =
     (case wikiword s of
        None \<Rightarrow> None
      | Some w \<Rightarrow>
          map_option (\<lambda>(name, n). ([w, name], length w + n)) (tenant_suffix (drop (length w) s)))"

definition spacefreelink_body :: "string \<Rightarrow> (string list \<times> nat) option" where
  "spacefreelink_body s =
     (if \<not> prefix ''[['' s then None
      else map_option (\<lambda>(k, (name, n)). ([take k (drop 2 s), name], 2 + k + 2 + n))
             (lazy_body tenant_suffix (drop 2 s)))"

text \<open>The match of each pattern that starts at position \<open>pos\<close> of \<open>text\<close>, if there is one.\<close>

fun match_at :: "regex \<Rightarrow> string \<Rightarrow> nat \<Rightarrow> re_match option" where
  "match_at Freelink text pos =
     (if \<not> prefix ''[['' (drop pos text) then None
      else map_option
             (\<lambda>(k, u). \<lparr>span = (pos, pos + 2 + k + 2), groups = [slice text (pos + 2) (pos + 2 + k)]\<rparr>)
             (lazy_body (\<lambda>rest. Some ()) (drop (pos + 2) text)))"
| "match_at Wikilink text pos =
     (if 0 < pos \<and> pos \<le> length text \<and> is_space (text ! (pos - 1))
      then map_option (\<lambda>w. \<lparr>span = (pos, pos + length w), groups = [w]\<rparr>) (wikiword (drop pos text))
      else None)"
| "match_at Barelink text pos =
     (if 2 \<le> pos \<and> slice text (pos - 2) pos \<in> set [[CHR 0x22, CHR ''>''], [CHR ''='', CHR 0x22]]
      then None
      else map_option (\<lambda>u. \<lparr>span = (pos, pos + length u), groups = [u]\<rparr>) (bareurl (drop pos text)))"
| "match_at Spacelink text pos = with_lead text pos spacelink_body"
| "match_at Spacewikilink text pos = with_lead text pos spacewikilink_body"
| "match_at Spacefreelink text pos = with_lead text pos spacefreelink_body"

text \<open>
  \<open>regex.finditer(text)\<close>: the leftmost match from the current position, then on from
  its end. No pattern of the module matches the empty string, so a match always ends
  beyond its start; \<open>max\<close> only keeps the scan moving if one did not.
\<close>

function finditer_from :: "regex \<Rightarrow> string \<Rightarrow> nat \<Rightarrow> re_match list" where
  "finditer_from r text pos =
     (if length text < pos then []
      else (case match_at r text pos of
              None \<Rightarrow> finditer_from r text (Suc pos)
            | Some m \<Rightarrow> m # finditer_from r text (max (snd (span m)) (Suc pos))))"
  by pat_completeness auto
termination
  by (relation "measure (\<lambda>(r, text, pos). Suc (length text) - pos)") auto

declare finditer_from.simps [simp del]

definition finditer :: "regex \<Rightarrow> string \<Rightarrow> re_match list" where
  "finditer r text = finditer_from r text 0"

section \<open>What the module imports\<close>

text \<open>
  The request environment: only the entry \<open>tiddlyweb.config\<close>, a dictionary of settings,
  is read by this module.
\<close>

type_synonym config = "string \<rightharpoonup> string"
type_synonym environ = "string \<rightharpoonup> config"

text \<open>
  The functions the module imports and does not define, taken as parameters:
  markdown2's \<open>_hash_text\<close> and \<open>g_escape_table\<close> (read at the keys \<open>*\<close> and \<open>_\<close> only),
  tiddlyweb's \<open>encode_name\<close>, tiddlyspace's \<open>space_uri\<close>, which is \<open>None\<close> when the import
  fails and may raise when called, and what markdown2 does to a text apart from the
  link patterns, \<open>convert\<close>.
\<close>

record externals =
  hash_text :: "string \<Rightarrow> string"
  g_escape_table :: "char \<Rightarrow> string"
  encode_name :: "string \<Rightarrow> string"
  space_uri :: "(environ \<Rightarrow> string \<Rightarrow> error + string) option"
  convert :: "string \<Rightarrow> string"

section \<open>The replacement strategies\<close>

text \<open>
  What a callable returns to the engine: a pair \<open>(href, title)\<close>, where the title may be
  \<open>None\<close>, or a single string.
\<close>

datatype components = PyTuple string "string option" | PyStr string

text \<open>A template is a sequence of literal characters and group references; \<open>r'\1'\<close> is \<open>[Group 1]\<close>.\<close>

datatype template_item = Lit char | Group nat

datatype repl = Template "template_item list" | Callable "re_match \<Rightarrow> error + components"

text \<open>\<open>FreeLinker.__call__\<close>\<close>

definition FreeLinker :: "string \<Rightarrow> re_match \<Rightarrow> error + components" where
  "FreeLinker base m =
     (case groups m of
        [] \<Rightarrow> Inl IndexError
      | link # _ \<Rightarrow>
          (case unpack2 (split1 CHR ''|'' link) of
             Inr (label, page) \<Rightarrow> Inr (PyTuple page (Some label))
           | Inl ValueError \<Rightarrow> Inr (PyTuple link (Some link))
           | Inl e \<Rightarrow> Inl e))"

text \<open>\<open>SpaceLinker.__call__\<close>\<close>

definition call_space_uri :: "externals \<Rightarrow> environ \<Rightarrow> string \<Rightarrow> error + string" where
  "call_space_uri ext environ space_name =
     (case space_uri ext of None \<Rightarrow> Inl NameError | Some f \<Rightarrow> f environ space_name)"

definition SpaceLinker :: "externals \<Rightarrow> environ \<Rightarrow> re_match \<Rightarrow> error + components" where
  "SpaceLinker ext environ m =
     (if length (groups m) = 1 then
        (let space_name = groups m ! 0 in
         case call_space_uri ext environ space_name of
           Inl e \<Rightarrow> Inl e
         | Inr url \<Rightarrow> Inr (PyTuple url (Some (''@'' @ space_name))))
      else
        (case groups m of
           page_name # space_name # _ \<Rightarrow>
             (let (label, page) =
                    (case unpack2 (split1 CHR ''|'' page_name) of
                       Inr (label, page) \<Rightarrow> (label, page)
                     | Inl _ \<Rightarrow> (page_name, page_name))
              in case call_space_uri ext environ space_name of
                   Inl e \<Rightarrow> Inl e
                 | Inr url \<Rightarrow> Inr (PyTuple (url @ encode_name ext page) (Some label)))
         | _ \<Rightarrow> Inl IndexError))"

section \<open>The link substitution engine: \<open>Markdown._do_link_patterns\<close>\<close>

text \<open>\<open>match.expand(template)\<close>: a reference to a group the pattern does not have is an error.\<close>

fun expand :: "template_item list \<Rightarrow> re_match \<Rightarrow> error + string" where
  "expand [] m = Inr []"
| "expand (Lit c # t) m = (case expand t m of Inl e \<Rightarrow> Inl e | Inr s \<Rightarrow> Inr (c # s))"
| "expand (Group n # t) m =
     (if n = 0 \<or> length (groups m) < n then Inl ReError
      else (case expand t m of Inl e \<Rightarrow> Inl e | Inr s \<Rightarrow> Inr (groups m ! (n - 1) @ s)))"

text \<open>
  \<open>href, title = components\<close> with its handler: a tuple unpacks; a string unpacks into its
  characters, which raises ValueError unless there are exactly two of them, and the
  handler then takes the string as the href.
\<close>

fun unpack_components :: "components \<Rightarrow> string \<times> string option" where
  "unpack_components (PyTuple href title) = (href, title)"
| "unpack_components (PyStr s) =
     (case unpack2 (map (\<lambda>c. [c]) s) of
        Inr (href, title) \<Rightarrow> (href, Some title)
      | Inl _ \<Rightarrow> (s, None))"

text \<open>The body of the loop over the matches: the href and title of one match.\<close>

fun apply_repl :: "repl \<Rightarrow> re_match \<Rightarrow> error + (string \<times> string option)" where
  "apply_repl (Callable f) m =
     (case f m of Inl e \<Rightarrow> Inl e | Inr components \<Rightarrow> Inr (unpack_components components))"
| "apply_repl (Template t) m =
     (case expand t m of Inl e \<Rightarrow> Inl e | Inr href \<Rightarrow> Inr (href, None))"

type_synonym replacement = "(nat \<times> nat) \<times> string \<times> string option"

fun collect_replacements :: "repl \<Rightarrow> re_match list \<Rightarrow> error + replacement list" where
  "collect_replacements rp [] = Inr []"
| "collect_replacements rp (m # ms) =
     (case apply_repl rp m of
        Inl e \<Rightarrow> Inl e
      | Inr (href, title) \<Rightarrow>
          (case collect_replacements rp ms of
             Inl e \<Rightarrow> Inl e
           | Inr rs \<Rightarrow> Inr ((span m, href, title) # rs)))"

text \<open>
  \<open>link_from_hash\<close>: a dictionary in insertion order (an assignment to a key it holds
  keeps the key's place), which is the order \<open>items()\<close> has since Python 3.7; earlier
  versions leave the order of \<open>items()\<close> open.
\<close>

type_synonym link_dict = "(string \<times> string) list"

fun dict_set :: "link_dict \<Rightarrow> string \<Rightarrow> string \<Rightarrow> link_dict" where
  "dict_set [] k v = [(k, v)]"
| "dict_set ((k', v') # d) k v = (if k' = k then (k, v) # d else (k', v') # dict_set d k v)"

definition escape_href :: "externals \<Rightarrow> string \<Rightarrow> string" where
  "escape_href ext href =
     py_replace ''_'' (g_escape_table ext CHR ''_'')
       (py_replace ''*'' (g_escape_table ext CHR ''*'')
          (py_replace [CHR 0x22] ''&quot;'' href))"

text \<open>The link built for one replacement, from the text as it is when its turn comes.\<close>

definition make_link :: "externals \<Rightarrow> string \<Rightarrow> replacement \<Rightarrow> string" where
  "make_link ext text rp =
     (case rp of ((start, stop), href, title) \<Rightarrow>
        (let escaped_href = escape_href ext href;
             title' = (case title of
                         None \<Rightarrow> slice text start stop
                       | Some t \<Rightarrow> if t = [] then slice text start stop else t)
         in ''<a href=\"'' @ escaped_href @ ''\">'' @ title' @ ''</a>''))"

text \<open>The body of the loop over the reversed replacements.\<close>

definition splice_step :: "externals \<Rightarrow> replacement \<Rightarrow> string \<times> link_dict \<Rightarrow> string \<times> link_dict" where
  "splice_step ext rp st =
     (case st of (text, link_from_hash) \<Rightarrow>
        (let link = make_link ext text rp;
             hash = hash_text ext link;
             (start, stop) = fst rp
         in (take start text @ hash @ drop stop text, dict_set link_from_hash hash link)))"

text \<open>The loop over \<open>self.link_patterns\<close>.\<close>

fun run_patterns :: "externals \<Rightarrow> (regex \<times> repl) list \<Rightarrow> string \<times> link_dict \<Rightarrow> error + (string \<times> link_dict)" where
  "run_patterns ext [] st = Inr st"
| "run_patterns ext ((re, rp) # ps) st =
     (case collect_replacements rp (finditer re (fst st)) of
        Inl e \<Rightarrow> Inl e
      | Inr replacements \<Rightarrow> run_patterns ext ps (fold (splice_step ext) (rev replacements) st))"

text \<open>The final loop: every hash is replaced by its link, in the dictionary's order.\<close>

definition expand_hashes :: "link_dict \<Rightarrow> string \<Rightarrow> string" where
  "expand_hashes link_from_hash text = fold (\<lambda>(hash, link) t. py_replace hash link t) link_from_hash text"

definition do_link_patterns :: "externals \<Rightarrow> (regex \<times> repl) list \<Rightarrow> string \<Rightarrow> error + string" where
  "do_link_patterns ext link_patterns text =
     (case run_patterns ext link_patterns (text, []) of
        Inl e \<Rightarrow> Inl e
      | Inr (text', link_from_hash) \<Rightarrow> Inr (expand_hashes link_from_hash text'))"

section \<open>\<open>render\<close>\<close>

record tiddler =
  tiddler_text :: string

definition wiki_link_base :: "environ \<Rightarrow> string option" where
  "wiki_link_base environ =
     (case environ ''tiddlyweb.config'' of
        None \<Rightarrow> None
      | Some cfg \<Rightarrow> cfg ''markdown.wiki_link_base'')"

text \<open>The keys of PATTERNS: the three tenant patterns are there when the import succeeded.\<close>

definition PATTERNS :: "externals \<Rightarrow> regex list" where
  "PATTERNS ext =
     [Freelink, Wikilink, Barelink] @
     (if space_uri ext = None then [] else [Spacelink, Spacewikilink, Spacefreelink])"

text \<open>The list \<open>link_patterns\<close> that \<open>render\<close> builds; \<open>insert(0, x)\<close> puts \<open>x\<close> at the head.\<close>

definition link_patterns :: "externals \<Rightarrow> environ \<Rightarrow> (regex \<times> repl) list" where
  "link_patterns ext environ =
     (case wiki_link_base environ of
        Some base \<Rightarrow>
          (let lp = [(Freelink, Callable (FreeLinker base)),
                     (Wikilink, Template [Group 1]),
                     (Barelink, Template [Group 1])]
           in if Spacelink \<in> set (PATTERNS ext)
              then fold (\<lambda>pattern lp. (pattern, Callable (SpaceLinker ext environ)) # lp)
                     [Spacelink, Spacewikilink, Spacefreelink] lp
              else lp)
      | None \<Rightarrow> [])"

text \<open>
  Modelled from the spec: \<open>Markdown.convert\<close> of markdown2, which is not part of this
  repository and calls the method \<open>_do_link_patterns\<close> that the module overrides. The spec
  (section 2, control flow) has the link substitution run over the text and the
  converter then process its result, and (section 6) gives the converter the interface
  \<open>convert(text) -> html\<close>; an exception of the substitution is not handled.
\<close>

definition markdown_convert :: "externals \<Rightarrow> (string \<Rightarrow> error + string) \<Rightarrow> string \<Rightarrow> error + string" where
  "markdown_convert ext link_pass text =
     (case link_pass text of
        Inl e \<Rightarrow> Inl e
      | Inr t \<Rightarrow> Inr (convert ext t))"

text \<open>
  \<open>render\<close>: the processor is the subclass with the list \<open>link_patterns\<close>, and the result is
  what its \<open>convert\<close> returns for the text of the tiddler.
\<close>

definition render :: "externals \<Rightarrow> tiddler \<Rightarrow> environ \<Rightarrow> error + string" where
  "render ext tid environ =
     markdown_convert ext (do_link_patterns ext (link_patterns ext environ)) (tiddler_text tid)"

section \<open>Notions used to state the properties\<close>

text \<open>
  Spans in increasing order, none overlapping another, all within a text of length \<open>n\<close>,
  the first not before \<open>pos\<close>.
\<close>

fun ordered_spans :: "nat \<Rightarrow> nat \<Rightarrow> (nat \<times> nat) list \<Rightarrow> bool" where
  "ordered_spans pos n [] = (pos \<le> n)"
| "ordered_spans pos n ((s, e) # rest) = (pos \<le> s \<and> s \<le> e \<and> ordered_spans e n rest)"

text \<open>
  The text from \<open>pos\<close> on with each span replaced by the string given for it: the gaps
  between the spans are copied, the spans are not.
\<close>

fun splice_from :: "nat \<Rightarrow> string \<Rightarrow> ((nat \<times> nat) \<times> string) list \<Rightarrow> string" where
  "splice_from pos text [] = drop pos text"
| "splice_from pos text (((s, e), h) # rest) = slice text pos s @ h @ splice_from e text rest"

text \<open>The source text of a match, \<open>text[start:end]\<close>.\<close>

definition matched :: "string \<Rightarrow> re_match \<Rightarrow> string" where
  "matched text m = slice text (fst (span m)) (snd (span m))"

text \<open>
  The placeholder of a replacement and the entry it leaves in \<open>link_from_hash\<close>, both
  computed from the text as it was before any replacement of the pattern was spliced.
\<close>

definition placeholder :: "externals \<Rightarrow> string \<Rightarrow> replacement \<Rightarrow> (nat \<times> nat) \<times> string" where
  "placeholder ext text rp = (fst rp, hash_text ext (make_link ext text rp))"

definition record_link :: "externals \<Rightarrow> string \<Rightarrow> replacement \<Rightarrow> link_dict \<Rightarrow> link_dict" where
  "record_link ext text rp d = dict_set d (hash_text ext (make_link ext text rp)) (make_link ext text rp)"

text \<open>
  The anchor as the specification words it: every character of the href is escaped on
  its own, and the title defaults to the matched source text.
\<close>

definition spec_escape_char :: "externals \<Rightarrow> char \<Rightarrow> string" where
  "spec_escape_char ext c =
     (if c = CHR 0x22 then ''&quot;''
      else if c = CHR ''*'' \<or> c = CHR ''_'' then g_escape_table ext c
      else [c])"

definition spec_anchor :: "externals \<Rightarrow> string \<Rightarrow> string option \<Rightarrow> string \<Rightarrow> string" where
  "spec_anchor ext href title source =
     ''<a href=\"'' @ concat (map (spec_escape_char ext) href) @ ''\">'' @
     (case title of None \<Rightarrow> source | Some t \<Rightarrow> if t = [] then source else t) @ ''</a>''"

text \<open>
  The anchor of a free link as a function of its matched span \<open>[[X]]\<close> alone: \<open>X\<close> is split
  at its first pipe into label and page.
\<close>

definition first_pipe :: "string \<Rightarrow> string \<times> string" where
  "first_pipe x =
     (if CHR ''|'' \<in> set x
      then (takeWhile (\<lambda>c. c \<noteq> CHR ''|'') x, tl (dropWhile (\<lambda>c. c \<noteq> CHR ''|'') x))
      else (x, x))"

definition freelink_anchor :: "externals \<Rightarrow> string \<Rightarrow> string" where
  "freelink_anchor ext source =
     (let (label, page) = first_pipe (take (length source - 4) (drop 2 source))
      in ''<a href=\"'' @ escape_href ext page @ ''\">'' @
         (if label = [] then source else label) @ ''</a>'')"

text \<open>
  The visible text of an anchor: the title of the replacement, or the matched source
  text when the title is \<open>None\<close> or empty.
\<close>

definition label_of :: "string option \<Rightarrow> string \<Rightarrow> string" where
  "label_of title source = (case title of None \<Rightarrow> source | Some t \<Rightarrow> if t = [] then source else t)"

text \<open>
  The anchor of a match of a static template \<open>r'\1'\<close> as a function of the matched text:
  the label is the matched text, the href is the matched text with each underscore
  replaced by its entry of the escape table.
\<close>

definition template_anchor :: "externals \<Rightarrow> string \<Rightarrow> string" where
  "template_anchor ext w =
     ''<a href=\"'' @
     concat (map (\<lambda>c. if c = CHR ''_'' then g_escape_table ext CHR ''_'' else [c]) w) @
     ''\">'' @ w @ ''</a>''"

text \<open>A character that is neither a double quote nor an asterisk.\<close>

definition plain_char :: "char \<Rightarrow> bool" where
  "plain_char c \<longleftrightarrow> c \<noteq> CHR 0x22 \<and> c \<noteq> CHR ''*''"

section \<open>The text that enters the final pass, as pieces\<close>

text \<open>
  A text cut into pieces: ordinary text, and placeholders (keys of \<open>link_from_hash\<close>) that
  were spliced into it.
\<close>

datatype piece = Txt string | Key string

fun piece_text :: "piece \<Rightarrow> string" where
  "piece_text (Txt s) = s"
| "piece_text (Key h) = h"

definition flatten :: "piece list \<Rightarrow> string" where
  "flatten ps = concat (map piece_text ps)"

text \<open>The pieces of \<open>splice_from\<close>: the gaps are text, the strings spliced are placeholders.\<close>

fun pieces_from :: "nat \<Rightarrow> string \<Rightarrow> ((nat \<times> nat) \<times> string) list \<Rightarrow> piece list" where
  "pieces_from pos text [] = [Txt (drop pos text)]"
| "pieces_from pos text (((s, e), h) # rest) = Txt (slice text pos s) # Key h # pieces_from e text rest"

text \<open>No occurrence of \<open>h\<close> starts within \<open>s\<close> when \<open>r\<close> follows it.\<close>

definition absent_within :: "string \<Rightarrow> string \<Rightarrow> string \<Rightarrow> bool" where
  "absent_within h s r = list_all (\<lambda>i. \<not> prefix h (drop i (s @ r))) [0..<length s]"

text \<open>
  The key \<open>h\<close> occurs in the text only where a placeholder \<open>h\<close> stands: no occurrence
  starts within any other piece.
\<close>

fun only_at_keys :: "string \<Rightarrow> piece list \<Rightarrow> bool" where
  "only_at_keys h [] = True"
| "only_at_keys h (p # ps) =
     ((p = Key h \<or> absent_within h (piece_text p) (flatten ps)) \<and> only_at_keys h ps)"

text \<open>One step of the final pass on the pieces: the placeholders \<open>h\<close> become the text \<open>a\<close>.\<close>

definition expand_key :: "string \<Rightarrow> string \<Rightarrow> piece list \<Rightarrow> piece list" where
  "expand_key h a ps = map (\<lambda>p. if p = Key h then Txt a else p) ps"

text \<open>
  Every key is non-empty and, when its turn comes in the final pass, occurs only where
  a placeholder for it stands.
\<close>

fun stepwise_clean :: "link_dict \<Rightarrow> piece list \<Rightarrow> bool" where
  "stepwise_clean [] ps = True"
| "stepwise_clean ((h, a) # d) ps =
     (h \<noteq> [] \<and> only_at_keys h ps \<and> stepwise_clean d (expand_key h a ps))"

text \<open>A placeholder replaced by the link the dictionary holds for it.\<close>

fun expand_piece :: "link_dict \<Rightarrow> piece \<Rightarrow> piece" where
  "expand_piece d (Txt s) = Txt s"
| "expand_piece d (Key k) = (case map_of d k of Some a \<Rightarrow> Txt a | None \<Rightarrow> Key k)"

text \<open>
  The anchor of a static template in pieces: each underscore of the href is the
  placeholder that the escape table holds for it, the rest is text.
\<close>

definition anchor_pieces :: "externals \<Rightarrow> string \<Rightarrow> piece list" where
  "anchor_pieces ext w =
     Txt ''<a href=\"'' #
     map (\<lambda>c. if c = CHR ''_'' then Key (g_escape_table ext CHR ''_'') else Txt [c]) w @
     [Txt (''\">'' @ w @ ''</a>'')]"

text \<open>
  Modelled from the spec: the converter's own escaping mechanism (section 4.3, step 2;
  section 6, the escape table; section 8, the round trip of an href with \<open>*\<close> or \<open>_\<close>),
  read backwards. markdown2, which is not part of this repository, ends \<open>convert\<close> by
  replacing every entry of its escape table by the character it stands for; the two
  entries this module uses are modelled, replaced one after the other.
\<close>

definition escape_entries :: "externals \<Rightarrow> link_dict" where
  "escape_entries ext = [(g_escape_table ext CHR ''*'', ''*''), (g_escape_table ext CHR ''_'', ''_'')]"

definition unescape_special_chars :: "externals \<Rightarrow> string \<Rightarrow> string" where
  "unescape_special_chars ext text = expand_hashes (escape_entries ext) text"

section \<open>A converter, a resolver and an environment for the worked examples\<close>

text \<open>
  The hash writes its argument in hexadecimal after \<open>md5-\<close>, so that it is a function of
  the content with markdown2's alphabet; the escape table holds the hash of each
  character. The resolver knows every tenant but \<open>nowhere\<close>.
\<close>

definition hex_digit :: "nat \<Rightarrow> char" where
  "hex_digit n = ''0123456789abcdef'' ! (n mod 16)"

definition sample_hash :: "string \<Rightarrow> string" where
  "sample_hash s =
     ''md5-'' @ concat (map (\<lambda>c. [hex_digit (of_char c div 16), hex_digit (of_char c)]) s)"

definition sample_space_uri :: "environ \<Rightarrow> string \<Rightarrow> error + string" where
  "sample_space_uri environ space_name =
     (if space_name = ''nowhere'' then Inl (External ''no such space'')
      else Inr (''http://'' @ space_name @ ''.example.org/''))"

definition sample_ext :: externals where
  "sample_ext =
     \<lparr>hash_text = sample_hash,
      g_escape_table = (\<lambda>c. sample_hash [c]),
      encode_name = (\<lambda>s. s),
      space_uri = Some sample_space_uri,
      convert = (\<lambda>t. t)\<rparr>"

definition sample_environ :: environ where
  "sample_environ = [''tiddlyweb.config'' \<mapsto> [''markdown.wiki_link_base'' \<mapsto> []]]"

section \<open>Python's string operations\<close>

lemma replace_from_char:
  "replace_from a [] new s = concat (map (\<lambda>c. if c = a then new else [c]) s)"
  by (induction s) auto

lemma py_replace_char:
  "py_replace [a] new s = concat (map (\<lambda>c. if c = a then new else [c]) s)"
  by (simp add: replace_from_char)

lemma replace_char_absent:
  "a \<notin> set s \<Longrightarrow> concat (map (\<lambda>c. if c = a then new else [c]) s) = s"
  by (induction s) auto

lemma split1_no_sep: "sep \<notin> set s \<Longrightarrow> split1 sep s = [s]"
  by (induction s) auto

lemma split1_first_sep: "sep \<notin> set a \<Longrightarrow> split1 sep (a @ sep # b) = [a, b]"
  by (induction a) auto

section \<open>The patterns: where a match lies\<close>

lemma lazy_body_Some:
  "lazy_body cont s = Some (k, r) \<Longrightarrow>
     1 \<le> k \<and> k + 2 \<le> length s \<and> take 2 (drop k s) = '']]'' \<and> cont (drop (k + 2) s) = Some r"
proof (induction s arbitrary: k r)
  case Nil
  then show ?case by simp
next
  case (Cons c cs)
  show ?case
  proof (cases "c = CHR 0x0A")
    case True
    with Cons.prems show ?thesis by simp
  next
    case nl: False
    show ?thesis
    proof (cases "(if prefix '']]'' cs then cont (drop 2 cs) else None)")
      case (Some r')
      then have p: "prefix '']]'' cs" and c: "cont (drop 2 cs) = Some r'"
        by (auto split: if_splits)
      from Cons.prems nl Some have "k = 1" "r = r'" by auto
      moreover from p obtain t where "cs = '']]'' @ t" by (auto simp: prefix_def)
      ultimately show ?thesis using c by auto
    next
      case None
      with Cons.prems nl obtain k' where k': "lazy_body cont cs = Some (k', r)" "k = Suc k'"
        by (auto split: prod.splits)
      from Cons.IH[OF k'(1)] k'(2) show ?thesis by auto
    qed
  qed
qed

lemma wikiword_Some: "wikiword s = Some w \<Longrightarrow> w \<noteq> [] \<and> prefix w s"
  unfolding wikiword_def
  apply (auto split: list.splits if_splits simp: Let_def)
  by (metis append_Cons prefixI takeWhile_dropWhile_id append.assoc)

lemma bareurl_Some:
  assumes "bareurl s = Some u"
  shows "u \<noteq> [] \<and> prefix u s"
proof -
  define scheme where "scheme = (if prefix ''s'' (drop 4 s) then ''https'' else ''http'')"
  define r' where "r' = drop (length scheme) s"
  define v where "v = takeWhile is_url_char (drop 3 r')"
  from assms have h: "prefix ''http'' s"
    by (auto simp: bareurl_def split: if_splits)
  from assms h have c: "prefix ''://'' r'" and v: "v \<noteq> []" and u: "u = scheme @ ''://'' @ v"
    by (auto simp: bareurl_def Let_def scheme_def r'_def v_def split: if_splits)
  from h obtain t where t: "s = ''http'' @ t" by (auto simp: prefix_def)
  have "prefix scheme s"
    using t by (auto simp: scheme_def prefix_def)
  then have s: "s = scheme @ r'"
    by (auto simp: r'_def prefix_def)
  from c have "r' = ''://'' @ drop 3 r'" by (auto simp: prefix_def)
  moreover have "drop 3 r' = v @ dropWhile is_url_char (drop 3 r')"
    by (simp add: v_def)
  ultimately have "s = u @ dropWhile is_url_char (drop 3 r')"
    using s u by (metis append.assoc)
  then show ?thesis using u by (metis prefixI append_is_Nil_conv list.distinct(1))
qed

lemma tenant_suffix_Some:
  "tenant_suffix s = Some (name, n) \<Longrightarrow> 0 < n \<and> n \<le> length s"
proof -
  assume a: "tenant_suffix s = Some (name, n)"
  then obtain r where s: "s = CHR ''@'' # r"
    by (cases s) (auto simp: tenant_suffix_def split: if_splits)
  have len: "length (takeWhile is_tenant_mid r) + length (dropWhile is_tenant_mid r) = length r"
    by (metis length_append takeWhile_dropWhile_id)
  from a s len show ?thesis
    by (auto simp: tenant_suffix_def Let_def split: if_splits list.splits)
qed

lemma with_lead_Some:
  assumes "with_lead text pos body = Some m"
    and "\<And>s gs n. body s = Some (gs, n) \<Longrightarrow> 0 < n \<and> n \<le> length s"
  shows "fst (span m) = pos \<and> pos < snd (span m) \<and> snd (span m) \<le> length text"
proof (cases "if pos = 0 then body text else None")
  case (Some a)
  obtain gs n where a: "a = (gs, n)" by (cases a)
  from Some a have p: "pos = 0" "body text = Some (gs, n)" by (auto split: if_splits)
  from assms(2)[OF p(2)] assms(1) Some a p(1) show ?thesis
    by (auto simp: with_lead_def)
next
  case None
  with assms(1) have sp: "pos < length text" "is_space (text ! pos)"
    by (auto simp: with_lead_def split: if_splits)
  with assms(1) None obtain gs n where b: "body (drop (Suc pos) text) = Some (gs, n)"
    and m: "m = \<lparr>span = (pos, Suc pos + n), groups = gs\<rparr>"
    by (auto simp: with_lead_def split: option.splits)
  from assms(2)[OF b] sp m show ?thesis by auto
qed

lemma spacelink_body_Some: "spacelink_body s = Some (gs, n) \<Longrightarrow> 0 < n \<and> n \<le> length s"
  by (auto simp: spacelink_body_def dest: tenant_suffix_Some)

lemma spacewikilink_body_Some:
  assumes "spacewikilink_body s = Some (gs, n)"
  shows "0 < n \<and> n \<le> length s"
proof -
  from assms obtain w name k where w: "wikiword s = Some w"
    and t: "tenant_suffix (drop (length w) s) = Some (name, k)" and n: "n = length w + k"
    by (auto simp: spacewikilink_body_def split: option.splits)
  from wikiword_Some[OF w] have "length w \<le> length s" by (auto simp: prefix_def)
  with tenant_suffix_Some[OF t] n show ?thesis by auto
qed

lemma spacefreelink_body_Some:
  assumes "spacefreelink_body s = Some (gs, n)"
  shows "0 < n \<and> n \<le> length s"
proof -
  from assms have p: "prefix ''[['' s"
    by (auto simp: spacefreelink_body_def split: if_splits)
  with assms obtain k name j where l: "lazy_body tenant_suffix (drop 2 s) = Some (k, (name, j))"
    and n: "n = 2 + k + 2 + j"
    by (auto simp: spacefreelink_body_def split: if_splits)
  from lazy_body_Some[OF l] have k: "k + 2 \<le> length s - 2"
    and t: "tenant_suffix (drop (k + 2) (drop 2 s)) = Some (name, j)" by auto
  from tenant_suffix_Some[OF t] have "j \<le> length s - 2 - (k + 2)" by auto
  moreover from p have "2 \<le> length s" by (auto simp: prefix_def)
  ultimately show ?thesis using n k by auto
qed

lemma match_at_span:
  assumes "match_at r text pos = Some m"
  shows "fst (span m) = pos \<and> pos < snd (span m) \<and> snd (span m) \<le> length text"
proof (cases r)
  case Freelink
  with assms have p: "prefix ''[['' (drop pos text)"
    by (auto split: if_splits)
  with assms Freelink obtain k where l: "lazy_body (\<lambda>rest. Some ()) (drop (pos + 2) text) = Some (k, ())"
    and m: "span m = (pos, pos + 2 + k + 2)"
    by (auto split: if_splits)
  from lazy_body_Some[OF l] have "k + 2 \<le> length text - (pos + 2)" by auto
  moreover from p have "pos + 2 \<le> length text" by (auto simp: prefix_def dest!: arg_cong[where f=length])
  ultimately show ?thesis using m by auto
next
  case Wikilink
  with assms obtain w where w: "wikiword (drop pos text) = Some w" and m: "span m = (pos, pos + length w)"
    by (auto split: if_splits)
  from wikiword_Some[OF w] have "w \<noteq> []" "length w \<le> length text - pos"
    by (auto dest: prefix_length_le)
  moreover from this have "pos < length text" by (cases "pos < length text") auto
  ultimately show ?thesis using m by auto
next
  case Barelink
  with assms obtain w where w: "bareurl (drop pos text) = Some w" and m: "span m = (pos, pos + length w)"
    by (auto split: if_splits)
  from bareurl_Some[OF w] have "w \<noteq> []" "length w \<le> length text - pos"
    by (auto dest: prefix_length_le)
  moreover from this have "pos < length text" by (cases "pos < length text") auto
  ultimately show ?thesis using m by auto
next
  case Spacelink
  with assms show ?thesis by (auto intro!: with_lead_Some[of "text" pos spacelink_body m] dest: spacelink_body_Some)
next
  case Spacewikilink
  with assms show ?thesis by (auto intro!: with_lead_Some[of "text" pos spacewikilink_body m] dest: spacewikilink_body_Some)
next
  case Spacefreelink
  with assms show ?thesis by (auto intro!: with_lead_Some[of "text" pos spacefreelink_body m] dest: spacefreelink_body_Some)
qed

lemma ordered_spans_weaken: "ordered_spans p n xs \<Longrightarrow> q \<le> p \<Longrightarrow> ordered_spans q n xs"
  by (cases xs) auto

lemma finditer_from_beyond: "length tx < pos \<Longrightarrow> finditer_from r tx pos = []"
  by (simp add: finditer_from.simps)

lemma finditer_from_None:
  "pos \<le> length tx \<Longrightarrow> match_at r tx pos = None \<Longrightarrow> finditer_from r tx pos = finditer_from r tx (Suc pos)"
  by (subst finditer_from.simps) simp

lemma finditer_from_Some:
  "pos \<le> length tx \<Longrightarrow> match_at r tx pos = Some m \<Longrightarrow>
     finditer_from r tx pos = m # finditer_from r tx (max (snd (span m)) (Suc pos))"
  by (subst finditer_from.simps) simp

lemma finditer_from_ordered:
  "pos \<le> length tx \<Longrightarrow> ordered_spans pos (length tx) (map span (finditer_from r tx pos))"
proof (induction r tx pos rule: finditer_from.induct)
  case (1 r tx pos)
  show ?case
  proof (cases "match_at r tx pos")
    case None
    show ?thesis
    proof (cases "pos = length tx")
      case True
      then show ?thesis
        using finditer_from_None[OF "1.prems" None] by (simp add: finditer_from_beyond)
    next
      case False
      with "1.prems" have "Suc pos \<le> length tx" by simp
      from "1.IH"(1)[OF _ None this] "1.prems" show ?thesis
        using finditer_from_None[OF "1.prems" None] by (simp add: ordered_spans_weaken)
    qed
  next
    case (Some m)
    from match_at_span[OF Some] have sp: "fst (span m) = pos" "pos < snd (span m)" "snd (span m) \<le> length tx"
      by auto
    then have mx: "max (snd (span m)) (Suc pos) = snd (span m)" by simp
    from "1.IH"(2)[OF _ Some] "1.prems" sp mx
    have "ordered_spans (snd (span m)) (length tx) (map span (finditer_from r tx (snd (span m))))"
      by simp
    with sp mx show ?thesis
      using finditer_from_Some[OF "1.prems" Some] by (cases "span m") simp
  qed
qed

lemma finditer_ordered: "ordered_spans 0 (length text) (map span (finditer r text))"
  by (simp add: finditer_def finditer_from_ordered)

section \<open>The loop over the reversed replacements splices by offset ranges\<close>

lemma ordered_spans_le: "ordered_spans p n xs \<Longrightarrow> p \<le> n"
proof (induction xs arbitrary: p)
  case Nil
  then show ?case by simp
next
  case (Cons x xs)
  obtain s e where x: "x = (s, e)" by (cases x)
  from Cons.prems x have "p \<le> e" "ordered_spans e n xs" by auto
  with Cons.IH[of e] show ?case by simp
qed

lemma slice_take_append:
  assumes "s \<le> e" "e \<le> length tx"
  shows "slice (take e tx @ X) s e = slice tx s e"
proof -
  have "drop s (take e tx @ X) = drop s (take e tx) @ X"
    using assms by simp
  moreover have "length (drop s (take e tx)) = e - s"
    using assms by simp
  ultimately have "slice (take e tx @ X) s e = drop s (take e tx)"
    by (simp add: slice_def)
  also have "\<dots> = slice tx s e"
    by (simp add: slice_def drop_take)
  finally show ?thesis .
qed

lemma make_link_take_append:
  assumes "fst (fst rp) \<le> snd (fst rp)" "snd (fst rp) \<le> length tx"
  shows "make_link ext (take (snd (fst rp)) tx @ X) rp = make_link ext tx rp"
  using assms by (cases rp) (auto simp: make_link_def slice_take_append split: option.splits)

lemma take_slice: "p \<le> s \<Longrightarrow> take p tx @ slice tx p s = take s tx"
  by (metis slice_def take_add le_add_diff_inverse)

lemma fold_splice_step:
  "ordered_spans pos (length tx) (map fst reps) \<Longrightarrow>
   fold (splice_step ext) (rev reps) (tx, lfh) =
     (take pos tx @ splice_from pos tx (map (placeholder ext tx) reps),
      fold (record_link ext tx) (rev reps) lfh)"
proof (induction reps arbitrary: pos)
  case Nil
  then show ?case by simp
next
  case (Cons rp rs)
  obtain s e href title where rp: "rp = ((s, e), href, title)" by (cases rp) auto
  from Cons.prems rp have o: "pos \<le> s" "s \<le> e" "ordered_spans e (length tx) (map fst rs)"
    by auto
  from ordered_spans_le[OF o(3)] have e: "e \<le> length tx" .
  define X where "X = splice_from e tx (map (placeholder ext tx) rs)"
  define D where "D = fold (record_link ext tx) (rev rs) lfh"
  from Cons.IH[OF o(3)] have ih: "fold (splice_step ext) (rev rs) (tx, lfh) = (take e tx @ X, D)"
    by (simp add: X_def D_def)
  have ml: "make_link ext (take e tx @ X) rp = make_link ext tx rp"
    using make_link_take_append[of rp tx ext X] o e rp by simp
  have "splice_step ext rp (take e tx @ X, D) =
          (take s tx @ hash_text ext (make_link ext tx rp) @ X, record_link ext tx rp D)"
    using o e ml unfolding rp by (simp add: splice_step_def Let_def record_link_def min_def)
  moreover have "take pos tx @ splice_from pos tx (map (placeholder ext tx) (rp # rs)) =
          take s tx @ hash_text ext (make_link ext tx rp) @ X"
    using take_slice[OF o(1), of tx] by (simp add: placeholder_def rp X_def)
  ultimately show ?case
    using ih by (simp add: D_def)
qed

lemma collect_replacements_spans:
  "collect_replacements rp ms = Inr reps \<Longrightarrow> map fst reps = map span ms"
  by (induction ms arbitrary: reps) (auto split: sum.splits prod.splits)

lemma run_patterns_step:
  assumes "collect_replacements rp (finditer re tx) = Inr reps"
  shows "run_patterns ext ((re, rp) # ps) (tx, lfh) =
           run_patterns ext ps
             (splice_from 0 tx (map (placeholder ext tx) reps),
              fold (record_link ext tx) (rev reps) lfh)"
proof -
  have "ordered_spans 0 (length tx) (map fst reps)"
    using collect_replacements_spans[OF assms] finditer_ordered[of tx re] by simp
  from fold_splice_step[OF this, of ext lfh] assms show ?thesis by simp
qed

section \<open>Every match that the scan returns is a match of the pattern\<close>

lemma split1_first_pipe:
  "split1 sep s =
     (if sep \<in> set s then [takeWhile (\<lambda>c. c \<noteq> sep) s, tl (dropWhile (\<lambda>c. c \<noteq> sep) s)] else [s])"
  by (induction s) auto

lemma finditer_from_match_at:
  "m \<in> set (finditer_from r tx pos) \<Longrightarrow> \<exists>q\<le>length tx. match_at r tx q = Some m"
proof (induction r tx pos rule: finditer_from.induct)
  case (1 r tx pos)
  show ?case
  proof (cases "length tx < pos")
    case True
    with "1.prems" show ?thesis by (simp add: finditer_from_beyond)
  next
    case False
    then have le: "pos \<le> length tx" by simp
    show ?thesis
    proof (cases "match_at r tx pos")
      case None
      with "1.prems" "1.IH"(1)[OF False None] le show ?thesis
        by (simp add: finditer_from_None)
    next
      case (Some m')
      with "1.prems" le have "m = m' \<or> m \<in> set (finditer_from r tx (max (snd (span m')) (Suc pos)))"
        by (simp add: finditer_from_Some)
      then show ?thesis
      proof
        assume "m = m'"
        with Some le show ?thesis by auto
      next
        assume "m \<in> set (finditer_from r tx (max (snd (span m')) (Suc pos)))"
        with "1.IH"(2)[OF False Some] show ?thesis by simp
      qed
    qed
  qed
qed

lemma finditer_match_at: "m \<in> set (finditer r tx) \<Longrightarrow> \<exists>q\<le>length tx. match_at r tx q = Some m"
  unfolding finditer_def by (rule finditer_from_match_at)

lemma collect_replacements_all:
  "(\<And>m. m \<in> set ms \<Longrightarrow> apply_repl rp m = Inr (F m)) \<Longrightarrow>
   collect_replacements rp ms = Inr (map (\<lambda>m. (span m, F m)) ms)"
  by (induction ms) (auto split: prod.splits)

lemma match_at_Freelink:
  assumes "match_at Freelink tx q = Some m"
  shows "\<exists>g. groups m = [g] \<and> g \<noteq> [] \<and> slice tx (fst (span m)) (snd (span m)) = ''[['' @ g @ '']]''"
proof -
  from assms have p: "prefix ''[['' (drop q tx)"
    by (auto split: if_splits)
  with assms obtain k where l: "lazy_body (\<lambda>rest. Some ()) (drop (q + 2) tx) = Some (k, ())"
    and m: "span m = (q, q + 2 + k + 2)" "groups m = [slice tx (q + 2) (q + 2 + k)]"
    by (auto split: if_splits)
  define b where "b = drop (q + 2) tx"
  from lazy_body_Some[OF l] have k: "1 \<le> k" "k + 2 \<le> length b" "take 2 (drop k b) = '']]''"
    by (auto simp: b_def)
  from p obtain zs where zs: "drop q tx = ''[['' @ zs"
    by (auto simp: prefix_def)
  have "b = drop 2 (drop q tx)"
    by (simp add: b_def add.commute)
  with zs have d: "drop q tx = ''[['' @ b"
    by simp
  have g: "slice tx (q + 2) (q + 2 + k) = take k b"
    by (simp add: slice_def b_def)
  have e: "q + 2 + k + 2 = q + Suc (Suc (k + 2))"
    by simp
  have "slice tx q (q + 2 + k + 2) = take (Suc (Suc (k + 2))) (drop q tx)"
    unfolding e by (simp add: slice_def eval_nat_numeral)
  also have "\<dots> = ''[['' @ take (k + 2) b"
    unfolding d by simp
  finally have "slice tx q (q + 2 + k + 2) = ''[['' @ take (k + 2) b" .
  with take_add[of k 2 b] k have "slice tx q (q + 2 + k + 2) = ''[['' @ take k b @ '']]''"
    by simp
  moreover have "take k b \<noteq> []" using k by auto
  ultimately show ?thesis using m g by simp
qed

section \<open>Free links\<close>

lemma FreeLinker_first_pipe_eq:
  "groups m = g # rest \<Longrightarrow>
   FreeLinker base m = Inr (PyTuple (snd (first_pipe g)) (Some (fst (first_pipe g))))"
  by (simp add: FreeLinker_def split1_first_pipe first_pipe_def)

lemma first_pipe_split: "CHR ''|'' \<notin> set label \<Longrightarrow> first_pipe (label @ CHR ''|'' # page) = (label, page)"
  by (induction label) (auto simp: first_pipe_def)

lemma first_pipe_none: "CHR ''|'' \<notin> set x \<Longrightarrow> first_pipe x = (x, x)"
  by (simp add: first_pipe_def)

lemma freelink_make_link:
  assumes "matched tx m = ''[['' @ g @ '']]''"
  shows "make_link ext tx (span m, snd (first_pipe g), Some (fst (first_pipe g))) =
         freelink_anchor ext (matched tx m)"
proof -
  have "take (length (matched tx m) - 4) (drop 2 (matched tx m)) = g"
    using assms by simp
  then show ?thesis
    by (cases "span m") (simp add: make_link_def freelink_anchor_def matched_def Let_def split: prod.splits)
qed

lemma fold_record_link_map:
  assumes "\<And>m. m \<in> set ms \<Longrightarrow> make_link ext tx (R m) = A m"
  shows "fold (record_link ext tx) (rev (map R ms)) lfh =
         fold (\<lambda>m d. dict_set d (hash_text ext (A m)) (A m)) (rev ms) lfh"
proof -
  have "fold (record_link ext tx) (rev (map R ms)) lfh = fold (record_link ext tx \<circ> R) (rev ms) lfh"
    by (simp add: rev_map fold_map)
  also have "\<dots> = fold (\<lambda>m d. dict_set d (hash_text ext (A m)) (A m)) (rev ms) lfh"
    by (rule fold_cong) (auto simp: record_link_def assms)
  finally show ?thesis .
qed

lemma map_placeholder_map:
  assumes "\<And>m. m \<in> set ms \<Longrightarrow> fst (R m) = span m \<and> make_link ext tx (R m) = A m"
  shows "map (placeholder ext tx) (map R ms) = map (\<lambda>m. (span m, hash_text ext (A m))) ms"
  using assms by (simp add: placeholder_def)

section \<open>CamelCase words and bare URLs\<close>

lemma is_word_plain: "is_word c \<Longrightarrow> plain_char c"
  by (auto simp: is_word_def is_upper_def is_lower_def is_digit_def plain_char_def)

lemma is_url_char_plain: "is_url_char c \<Longrightarrow> plain_char c"
  by (auto simp: is_url_char_def dest: is_word_plain) (auto simp: plain_char_def)

lemma wikiword_plain:
  assumes "wikiword s = Some w"
  shows "\<forall>c\<in>set w. plain_char c"
proof -
  from assms obtain c r u v where w: "w = c # takeWhile is_lower r @ u # takeWhile is_word v"
    and cu: "is_upper c" "is_upper u"
    by (auto simp: wikiword_def Let_def split: list.splits if_splits)
  have "is_word x" if "x \<in> set w" for x
    using that w cu by (auto simp: is_word_def dest: set_takeWhileD)
  then show ?thesis by (auto dest: is_word_plain)
qed

lemma bareurl_plain:
  assumes "bareurl s = Some u"
  shows "\<forall>c\<in>set u. plain_char c"
proof -
  define scheme where "scheme = (if prefix ''s'' (drop 4 s) then ''https'' else ''http'')"
  define v where "v = takeWhile is_url_char (drop 3 (drop (length scheme) s))"
  from assms have u: "u = scheme @ ''://'' @ v"
    by (auto simp: bareurl_def Let_def scheme_def v_def split: if_splits)
  have "\<forall>c\<in>set scheme. plain_char c"
    by (simp add: scheme_def plain_char_def)
  moreover have "\<forall>c\<in>set v. plain_char c"
    by (auto simp: v_def dest: set_takeWhileD is_url_char_plain)
  moreover have "\<forall>c\<in>set ''://''. plain_char c"
    by (simp add: plain_char_def)
  ultimately show ?thesis
    unfolding u by (metis Un_iff set_append)
qed

lemma slice_prefix:
  assumes "prefix w (drop q tx)"
  shows "slice tx q (q + length w) = w"
proof -
  from assms obtain zs where "drop q tx = w @ zs" by (auto simp: prefix_def)
  then show ?thesis by (simp add: slice_def)
qed

lemma match_at_template:
  assumes "match_at re tx q = Some m" and "re = Wikilink \<or> re = Barelink"
  shows "groups m = [matched tx m] \<and> matched tx m \<noteq> [] \<and> (\<forall>c\<in>set (matched tx m). plain_char c)"
proof -
  from assms obtain w where w: "wikiword (drop q tx) = Some w \<or> bareurl (drop q tx) = Some w"
    and m: "span m = (q, q + length w)" "groups m = [w]"
    by (auto split: if_splits)
  from w have "w \<noteq> [] \<and> prefix w (drop q tx)"
    using wikiword_Some bareurl_Some by blast
  moreover from w have "\<forall>c\<in>set w. plain_char c"
    using wikiword_plain bareurl_plain by blast
  ultimately show ?thesis
    using m slice_prefix[of w q tx] by (simp add: matched_def)
qed

lemma escape_href_plain:
  assumes "\<forall>c\<in>set w. plain_char c"
  shows "escape_href ext w =
           concat (map (\<lambda>c. if c = CHR ''_'' then g_escape_table ext CHR ''_'' else [c]) w)"
proof -
  have "CHR 0x22 \<notin> set w" "CHR ''*'' \<notin> set w"
    using assms by (auto simp: plain_char_def)
  then show ?thesis
    by (simp add: escape_href_def replace_from_char replace_char_absent)
qed

lemma template_make_link:
  assumes "matched tx m \<noteq> []" and "\<forall>c\<in>set (matched tx m). plain_char c"
  shows "make_link ext tx (span m, matched tx m, None) = template_anchor ext (matched tx m)"
  using escape_href_plain[OF assms(2), of ext]
  by (cases "span m") (simp add: make_link_def template_anchor_def matched_def)

section \<open>Errors of a strategy\<close>

lemma collect_replacements_error:
  assumes "\<forall>m'\<in>set ms1. \<exists>v. apply_repl rp m' = Inr v" and "apply_repl rp m = Inl e"
  shows "collect_replacements rp (ms1 @ m # ms2) = Inl e"
  using assms by (induction ms1) (auto split: sum.splits prod.splits)

lemma run_patterns_append:
  "run_patterns ext (ps1 @ ps2) st =
     (case run_patterns ext ps1 st of Inl e \<Rightarrow> Inl e | Inr st' \<Rightarrow> run_patterns ext ps2 st')"
  by (induction ext ps1 st rule: run_patterns.induct) (auto split: sum.splits)

lemma tenant_match_groups:
  assumes "match_at re tx q = Some m" and "re \<in> {Spacelink, Spacewikilink, Spacefreelink}"
  shows "\<exists>s. groups m = [s] \<or> (\<exists>p. groups m = [p, s])"
proof -
  from assms obtain body where w: "with_lead tx q body = Some m"
    and b: "body = spacelink_body \<or> body = spacewikilink_body \<or> body = spacefreelink_body"
    by auto
  from w obtain s gs n where g: "body s = Some (gs, n)" and m: "groups m = gs"
    by (auto simp: with_lead_def split: option.splits if_splits)
  from b g have "\<exists>s. gs = [s] \<or> (\<exists>p. gs = [p, s])"
    by (auto simp: spacelink_body_def spacewikilink_body_def spacefreelink_body_def
        split: option.splits if_splits)
  with m show ?thesis by simp
qed

lemma SpaceLinker_tenant:
  assumes "groups m = [s] \<or> (\<exists>p. groups m = [p, s])"
    and "space_uri ext = Some f"
  shows "(\<forall>e. f environ s = Inl e \<longrightarrow> SpaceLinker ext environ m = Inl e) \<and>
         (\<forall>url. f environ s = Inr url \<longrightarrow> (\<exists>c. SpaceLinker ext environ m = Inr c))"
  using assms
  by (auto simp: SpaceLinker_def call_space_uri_def Let_def split: sum.splits prod.splits)

section \<open>The final pass on a text made of pieces\<close>

lemma absent_within_iff:
  "absent_within h s r \<longleftrightarrow> (\<forall>i<length s. \<not> prefix h (drop i (s @ r)))"
  by (auto simp: absent_within_def list_all_iff)

lemma replace_from_skip:
  "absent_within (c0 # cs) g r \<Longrightarrow> replace_from c0 cs new (g @ r) = g @ replace_from c0 cs new r"
proof (induction g)
  case Nil
  show ?case by simp
next
  case (Cons x g)
  from Cons.prems have n: "\<not> prefix (c0 # cs) (x # g @ r)"
    by (auto simp: absent_within_iff)
  have "absent_within (c0 # cs) g r"
    unfolding absent_within_iff
  proof (intro allI impI)
    fix i assume "i < length g"
    with Cons.prems have "\<not> prefix (c0 # cs) (drop (Suc i) ((x # g) @ r))"
      unfolding absent_within_iff by (metis Suc_less_eq length_Cons)
    then show "\<not> prefix (c0 # cs) (drop i (g @ r))" by simp
  qed
  from Cons.IH[OF this] n show ?case by auto
qed

lemma replace_from_here:
  "replace_from c0 cs new ((c0 # cs) @ r) = new @ replace_from c0 cs new r"
  by simp

lemma py_replace_pieces:
  assumes "h \<noteq> []" and "only_at_keys h ps"
  shows "py_replace h a (flatten ps) = flatten (expand_key h a ps)"
proof -
  from assms(1) obtain c0 cs where h: "h = c0 # cs" by (cases h) auto
  have "replace_from c0 cs a (flatten ps) = flatten (expand_key h a ps)"
    using assms(2)
  proof (induction ps)
    case Nil
    show ?case by (simp add: flatten_def expand_key_def)
  next
    case (Cons p ps)
    then have ih: "replace_from c0 cs a (flatten ps) = flatten (expand_key h a ps)"
      by simp
    have f: "flatten (p # ps) = piece_text p @ flatten ps"
      by (simp add: flatten_def)
    show ?case
    proof (cases "p = Key h")
      case True
      then have "flatten (p # ps) = (c0 # cs) @ flatten ps"
        by (simp add: flatten_def h)
      then have "replace_from c0 cs a (flatten (p # ps)) = a @ replace_from c0 cs a (flatten ps)"
        by (simp only: replace_from_here)
      with True ih show ?thesis
        by (simp add: flatten_def expand_key_def)
    next
      case False
      with Cons.prems have "absent_within (c0 # cs) (piece_text p) (flatten ps)"
        by (simp add: h)
      from replace_from_skip[OF this] False ih show ?thesis
        by (simp add: f) (simp add: flatten_def expand_key_def)
    qed
  qed
  then show ?thesis by (simp add: h)
qed

lemma expand_hashes_pieces:
  "stepwise_clean d ps \<Longrightarrow>
   expand_hashes d (flatten ps) = flatten (map (expand_piece d) ps)"
proof (induction d arbitrary: ps)
  case Nil
  have "expand_piece [] p = p" for p
    by (cases p) simp_all
  then have "map (expand_piece []) ps = ps"
    by (simp add: map_idI)
  then show ?case by (simp add: expand_hashes_def)
next
  case (Cons e d)
  obtain h a where e: "e = (h, a)" by (cases e)
  from Cons.prems e have c: "h \<noteq> []" "only_at_keys h ps" "stepwise_clean d (expand_key h a ps)"
    by auto
  have "expand_hashes (e # d) (flatten ps) = expand_hashes d (py_replace h a (flatten ps))"
    by (simp add: expand_hashes_def e)
  also have "\<dots> = expand_hashes d (flatten (expand_key h a ps))"
    by (simp add: py_replace_pieces[OF c(1,2)])
  also have "\<dots> = flatten (map (expand_piece d) (expand_key h a ps))"
    by (rule Cons.IH[OF c(3)])
  also have "map (expand_piece d) (expand_key h a ps) = map (expand_piece (e # d)) ps"
  proof (rule nth_equalityI)
    show "length (map (expand_piece d) (expand_key h a ps)) = length (map (expand_piece (e # d)) ps)"
      by (simp add: expand_key_def)
  next
    fix i assume "i < length (map (expand_piece d) (expand_key h a ps))"
    then have i: "i < length ps" by (simp add: expand_key_def)
    show "map (expand_piece d) (expand_key h a ps) ! i = map (expand_piece (e # d)) ps ! i"
      using i by (cases "ps ! i") (auto simp: expand_key_def e)
  qed
  finally show ?case .
qed

lemma flatten_pieces_from: "flatten (pieces_from pos tx xs) = splice_from pos tx xs"
  by (induction pos tx xs rule: pieces_from.induct) (auto simp: flatten_def)

lemma map_of_dict_set: "map_of (dict_set d k v) = (map_of d)(k \<mapsto> v)"
  by (induction d k v rule: dict_set.induct) (auto simp: fun_eq_iff)

lemma recorded_links:
  assumes "inj_on (hash_text ext) (make_link ext tx ` set reps)" and "r \<in> set reps"
  shows "map_of (fold (record_link ext tx) (rev reps) d) (hash_text ext (make_link ext tx r)) =
           Some (make_link ext tx r)"
  using assms
proof (induction reps)
  case Nil
  then show ?case by simp
next
  case (Cons x reps)
  let ?D = "fold (record_link ext tx) (rev reps) d"
  have st: "fold (record_link ext tx) (rev (x # reps)) d = record_link ext tx x ?D"
    by simp
  show ?case
  proof (cases "hash_text ext (make_link ext tx r) = hash_text ext (make_link ext tx x)")
    case True
    have "make_link ext tx r = make_link ext tx x"
      by (rule inj_onD[OF Cons.prems(1) True]) (use Cons.prems(2) in auto)
    then show ?thesis
      unfolding st by (simp add: record_link_def map_of_dict_set)
  next
    case False
    with Cons.prems have "r \<in> set reps" by auto
    moreover from Cons.prems(1) have "inj_on (hash_text ext) (make_link ext tx ` set reps)"
      by (auto intro: inj_on_subset)
    ultimately have "map_of ?D (hash_text ext (make_link ext tx r)) = Some (make_link ext tx r)"
      by (rule Cons.IH[rotated])
    with False show ?thesis
      unfolding st by (simp add: record_link_def map_of_dict_set)
  qed
qed

lemma flatten_Cons: "flatten (p # ps) = piece_text p @ flatten ps"
  by (simp add: flatten_def)

lemma expand_pieces_from:
  assumes "\<And>r. r \<in> set reps \<Longrightarrow>
             map_of d (hash_text ext (make_link ext tx r)) = Some (make_link ext tx r)"
  shows "flatten (map (expand_piece d) (pieces_from pos tx (map (placeholder ext tx) reps))) =
         splice_from pos tx (map (\<lambda>r. (fst r, make_link ext tx r)) reps)"
  using assms
proof (induction reps arbitrary: pos)
  case Nil
  show ?case by (simp add: flatten_def)
next
  case (Cons x reps)
  obtain s e where x: "fst x = (s, e)" by (cases "fst x")
  from Cons.prems have "map_of d (hash_text ext (make_link ext tx x)) = Some (make_link ext tx x)"
    by simp
  moreover have "flatten (map (expand_piece d) (pieces_from e tx (map (placeholder ext tx) reps))) =
      splice_from e tx (map (\<lambda>r. (fst r, make_link ext tx r)) reps)"
    by (rule Cons.IH) (simp add: Cons.prems)
  moreover have "placeholder ext tx x = ((s, e), hash_text ext (make_link ext tx x))"
    by (simp add: placeholder_def x)
  ultimately show ?case
    by (simp add: x flatten_Cons)
qed

section \<open>Undoing the escape table on an anchor\<close>

lemma flatten_append: "flatten (ps @ qs) = flatten ps @ flatten qs"
  by (simp add: flatten_def)

lemma flatten_anchor_pieces: "flatten (anchor_pieces ext w) = template_anchor ext w"
proof -
  have "flatten (map (\<lambda>c. if c = CHR ''_'' then Key (g_escape_table ext CHR ''_'') else Txt [c]) w) =
          concat (map (\<lambda>c. if c = CHR ''_'' then g_escape_table ext CHR ''_'' else [c]) w)"
    by (induction w) (auto simp: flatten_def)
  then show ?thesis
    by (simp add: anchor_pieces_def template_anchor_def flatten_Cons flatten_append) (simp add: flatten_def)
qed

lemma unescape_anchor_pieces:
  assumes "g_escape_table ext CHR ''*'' \<noteq> g_escape_table ext CHR ''_''"
  shows "flatten (map (expand_piece (escape_entries ext)) (anchor_pieces ext w)) =
           ''<a href=\"'' @ w @ ''\">'' @ w @ ''</a>''"
proof -
  let ?d = "escape_entries ext"
  have k: "map_of ?d (g_escape_table ext CHR ''_'') = Some ''_''"
    using assms by (simp add: escape_entries_def)
  have "flatten (map (expand_piece ?d)
          (map (\<lambda>c. if c = CHR ''_'' then Key (g_escape_table ext CHR ''_'') else Txt [c]) w)) = w"
    by (induction w) (auto simp: flatten_Cons k flatten_def)
  then show ?thesis
    by (simp add: anchor_pieces_def flatten_Cons flatten_append) (simp add: flatten_def)
qed

lemma unescape_template_anchor:
  assumes "g_escape_table ext CHR ''*'' \<noteq> g_escape_table ext CHR ''_''"
    and "stepwise_clean (escape_entries ext) (anchor_pieces ext w)"
  shows "unescape_special_chars ext (template_anchor ext w) = ''<a href=\"'' @ w @ ''\">'' @ w @ ''</a>''"
  using expand_hashes_pieces[OF assms(2)] unescape_anchor_pieces[OF assms(1), of w]
  by (simp add: unescape_special_chars_def flatten_anchor_pieces)

section \<open>The pattern registry that \<open>render\<close> builds\<close>

lemma wiki_link_base_sample: "wiki_link_base sample_environ = Some []"
  by (simp add: wiki_link_base_def sample_environ_def)

text \<open>
  Claim C2, as the code has it. With a wiki link base configured, the registry lists the
  tenant patterns first, in the order space-free-link, space-wiki-link, space-link (each
  \<open>insert(0, ...)\<close> of the loop over spacelink, spacewikilink, spacefreelink puts its
  pattern before the ones inserted earlier), then free-link, CamelCase wiki-link and
  bare-URL link. The three tenant patterns are there only when the import of the tenant
  support succeeded.
\<close>

theorem registry_order:
  assumes "wiki_link_base environ = Some base"
  shows "link_patterns ext environ =
           (if space_uri ext = None then []
            else [(Spacefreelink, Callable (SpaceLinker ext environ)),
                  (Spacewikilink, Callable (SpaceLinker ext environ)),
                  (Spacelink, Callable (SpaceLinker ext environ))]) @
           [(Freelink, Callable (FreeLinker base)),
            (Wikilink, Template [Group 1]),
            (Barelink, Template [Group 1])]"
  using assms by (simp add: link_patterns_def PATTERNS_def)

theorem registry_order_witness:
  "wiki_link_base sample_environ = Some [] \<and>
   map fst (link_patterns sample_ext sample_environ) =
     [Spacefreelink, Spacewikilink, Spacelink, Freelink, Wikilink, Barelink]"
  using registry_order[of sample_environ "[]" sample_ext]
  by (simp add: wiki_link_base_sample sample_ext_def)

text \<open>
  Claim C2 as stated fails: with a link base configured and the tenant support
  imported, the registry does not start with space-link, space-wiki-link,
  space-free-link in that order.
\<close>

theorem registry_order_counterexample:
  "wiki_link_base sample_environ \<noteq> None \<and> space_uri sample_ext \<noteq> None \<and>
   map fst (link_patterns sample_ext sample_environ) \<noteq>
     [Spacelink, Spacewikilink, Spacefreelink, Freelink, Wikilink, Barelink]"
  by (simp add: wiki_link_base_sample link_patterns_def PATTERNS_def sample_ext_def)

text \<open>
  Claim C3. When \<open>markdown.wiki_link_base\<close> is not configured, the registry is empty and
  the link substitution returns the text as it received it; the placeholder map stays
  empty, so no placeholder and no anchor is introduced.
\<close>

theorem no_link_base_no_substitution:
  assumes "wiki_link_base environ = None"
  shows "link_patterns ext environ = [] \<and>
         run_patterns ext (link_patterns ext environ) (tx, []) = Inr (tx, []) \<and>
         do_link_patterns ext (link_patterns ext environ) tx = Inr tx"
  using assms by (simp add: link_patterns_def do_link_patterns_def expand_hashes_def)

theorem no_link_base_no_substitution_witness:
  "wiki_link_base Map.empty = None \<and>
   link_patterns sample_ext Map.empty = [] \<and>
   do_link_patterns sample_ext (link_patterns sample_ext Map.empty) ''see [[A]] and @acme '' =
     Inr ''see [[A]] and @acme ''"
proof -
  have h: "wiki_link_base Map.empty = None"
    by (simp add: wiki_link_base_def)
  from no_link_base_no_substitution[OF h, of sample_ext "''see [[A]] and @acme ''"] h
  show ?thesis by blast
qed

text \<open>
  Claim C1. For a free-link match \<open>[[X]]\<close>, FreeLinker returns as href the text after
  the first pipe of \<open>X\<close> and as title the text before it, and \<open>X\<close> for both when \<open>X\<close> has
  no pipe. Over a whole document, every free link is replaced by the placeholder of an
  anchor that is a function of that link's own matched text, \<open>freelink_anchor\<close>, and the
  placeholder map receives that anchor: nothing of another match enters it.
\<close>

theorem FreeLinker_first_pipe:
  "(groups m = [label @ ''|'' @ page] \<and> CHR ''|'' \<notin> set label \<longrightarrow>
      FreeLinker base m = Inr (PyTuple page (Some label))) \<and>
   (groups m = [x] \<and> CHR ''|'' \<notin> set x \<longrightarrow>
      FreeLinker base m = Inr (PyTuple x (Some x))) \<and>
   run_patterns ext [(Freelink, Callable (FreeLinker base))] (tx, lfh) =
     Inr (splice_from 0 tx
            (map (\<lambda>m. (span m, hash_text ext (freelink_anchor ext (matched tx m))))
               (finditer Freelink tx)),
          fold (\<lambda>m d. dict_set d (hash_text ext (freelink_anchor ext (matched tx m)))
                         (freelink_anchor ext (matched tx m)))
            (rev (finditer Freelink tx)) lfh)"
proof (intro conjI impI)
  assume "groups m = [label @ ''|'' @ page] \<and> CHR ''|'' \<notin> set label"
  then show "FreeLinker base m = Inr (PyTuple page (Some label))"
    using FreeLinker_first_pipe_eq[of m "label @ ''|'' @ page" "[]" base]
    by (simp add: first_pipe_split)
next
  assume "groups m = [x] \<and> CHR ''|'' \<notin> set x"
  then show "FreeLinker base m = Inr (PyTuple x (Some x))"
    using FreeLinker_first_pipe_eq[of m x "[]" base] by (simp add: first_pipe_none)
next
  define ms where "ms = finditer Freelink tx"
  define R where "R = (\<lambda>m::re_match. (span m, snd (first_pipe (hd (groups m))), Some (fst (first_pipe (hd (groups m))))))"
  define A where "A = (\<lambda>m::re_match. freelink_anchor ext (matched tx m))"
  have each: "groups m = [hd (groups m)] \<and> matched tx m = ''[['' @ hd (groups m) @ '']]''"
    if "m \<in> set ms" for m
  proof -
    from that finditer_match_at[of m Freelink tx] obtain q where "match_at Freelink tx q = Some m"
      by (auto simp: ms_def)
    from match_at_Freelink[OF this] show ?thesis
      by (auto simp: matched_def)
  qed
  have ap: "apply_repl (Callable (FreeLinker base)) m = Inr (snd (R m))" if "m \<in> set ms" for m
  proof -
    from each[OF that] have "groups m = hd (groups m) # []" by simp
    from FreeLinker_first_pipe_eq[OF this, of base] show ?thesis
      by (simp add: R_def)
  qed
  have "collect_replacements (Callable (FreeLinker base)) ms = Inr (map (\<lambda>m. (span m, snd (R m))) ms)"
    by (rule collect_replacements_all) (rule ap)
  then have c: "collect_replacements (Callable (FreeLinker base)) (finditer Freelink tx) = Inr (map R ms)"
    by (simp add: R_def ms_def)
  have ml: "fst (R m) = span m \<and> make_link ext tx (R m) = A m" if "m \<in> set ms" for m
    using each[OF that] freelink_make_link[of tx m "hd (groups m)" ext] by (simp add: R_def A_def)
  from run_patterns_step[OF c, of ext "[]" lfh]
  have "run_patterns ext [(Freelink, Callable (FreeLinker base))] (tx, lfh) =
          Inr (splice_from 0 tx (map (placeholder ext tx) (map R ms)),
               fold (record_link ext tx) (rev (map R ms)) lfh)"
    by simp
  also have "map (placeholder ext tx) (map R ms) = map (\<lambda>m. (span m, hash_text ext (A m))) ms"
    by (rule map_placeholder_map) (rule ml)
  also have "fold (record_link ext tx) (rev (map R ms)) lfh =
               fold (\<lambda>m d. dict_set d (hash_text ext (A m)) (A m)) (rev ms) lfh"
    by (rule fold_record_link_map) (simp add: ml)
  finally show "run_patterns ext [(Freelink, Callable (FreeLinker base))] (tx, lfh) =
     Inr (splice_from 0 tx
            (map (\<lambda>m. (span m, hash_text ext (freelink_anchor ext (matched tx m))))
               (finditer Freelink tx)),
          fold (\<lambda>m d. dict_set d (hash_text ext (freelink_anchor ext (matched tx m)))
                         (freelink_anchor ext (matched tx m)))
            (rev (finditer Freelink tx)) lfh)"
    by (simp add: A_def ms_def)
qed

theorem FreeLinker_first_pipe_witness:
  "FreeLinker [] \<lparr>span = (6, 27), groups = [''My Page|somewhere'']\<rparr> =
     Inr (PyTuple ''somewhere'' (Some ''My Page'')) \<and>
   FreeLinker [] \<lparr>span = (0, 5), groups = [''A'']\<rparr> = Inr (PyTuple ''A'' (Some ''A'')) \<and>
   do_link_patterns sample_ext [(Freelink, Callable (FreeLinker []))] ''[[A]] [[B]]'' =
     Inr ''<a href=\"A\">A</a> <a href=\"B\">B</a>''"
proof -
  let ?tx = "''[[A]] [[B]]''"
  let ?S = "splice_from 0 ?tx
              (map (\<lambda>m. (span m, hash_text sample_ext (freelink_anchor sample_ext (matched ?tx m))))
                 (finditer Freelink ?tx))"
  let ?D = "fold (\<lambda>m d. dict_set d (hash_text sample_ext (freelink_anchor sample_ext (matched ?tx m)))
                         (freelink_anchor sample_ext (matched ?tx m)))
              (rev (finditer Freelink ?tx)) []"
  have a: "FreeLinker [] \<lparr>span = (6, 27), groups = [''My Page|somewhere'']\<rparr> =
             Inr (PyTuple ''somewhere'' (Some ''My Page''))"
    using FreeLinker_first_pipe[of "\<lparr>span = (6, 27), groups = [''My Page|somewhere'']\<rparr>"
        "''My Page''" "''somewhere''" "[]"]
    by simp
  have b: "FreeLinker [] \<lparr>span = (0, 5), groups = [''A'']\<rparr> = Inr (PyTuple ''A'' (Some ''A''))"
    using FreeLinker_first_pipe[of "\<lparr>span = (0, 5), groups = [''A'']\<rparr>" _ _ "[]" "''A''"]
    by simp
  have c: "run_patterns sample_ext [(Freelink, Callable (FreeLinker []))] (?tx, []) = Inr (?S, ?D)"
    by (rule conjunct2[OF conjunct2[OF FreeLinker_first_pipe]])
  have r: "expand_hashes ?D ?S = ''<a href=\"A\">A</a> <a href=\"B\">B</a>''"
    by code_simp
  have "do_link_patterns sample_ext [(Freelink, Callable (FreeLinker []))] ?tx =
          Inr ''<a href=\"A\">A</a> <a href=\"B\">B</a>''"
    unfolding do_link_patterns_def c using r by simp
  with a b show ?thesis by blast
qed

section \<open>The tenant links\<close>

text \<open>
  Claim C6. Where the tenant resolver returns a URL for the tenant identifier \<open>s\<close>:
  on a match with the one group \<open>s\<close>, SpaceLinker returns that URL and the title \<open>@s\<close>;
  on a match with the two groups \<open>p\<close> and \<open>s\<close>, it splits \<open>p\<close> at its first pipe into label
  and page (both \<open>p\<close> when there is no pipe) and returns the URL followed by
  \<open>encode_name(page)\<close> as href and the label as title.
\<close>

theorem SpaceLinker_result:
  assumes "space_uri ext = Some f" and "f environ s = Inr url"
  shows "(groups m = [s] \<longrightarrow>
            SpaceLinker ext environ m = Inr (PyTuple url (Some (''@'' @ s)))) \<and>
         (groups m = [label @ ''|'' @ page, s] \<and> CHR ''|'' \<notin> set label \<longrightarrow>
            SpaceLinker ext environ m = Inr (PyTuple (url @ encode_name ext page) (Some label))) \<and>
         (groups m = [p, s] \<and> CHR ''|'' \<notin> set p \<longrightarrow>
            SpaceLinker ext environ m = Inr (PyTuple (url @ encode_name ext p) (Some p)))"
proof (intro conjI impI)
  assume "groups m = [s]"
  with assms show "SpaceLinker ext environ m = Inr (PyTuple url (Some (''@'' @ s)))"
    by (simp add: SpaceLinker_def call_space_uri_def)
next
  assume "groups m = [label @ ''|'' @ page, s] \<and> CHR ''|'' \<notin> set label"
  with assms show "SpaceLinker ext environ m = Inr (PyTuple (url @ encode_name ext page) (Some label))"
    using split1_first_sep[of "CHR ''|''" label page]
    by (simp add: SpaceLinker_def call_space_uri_def)
next
  assume "groups m = [p, s] \<and> CHR ''|'' \<notin> set p"
  with assms show "SpaceLinker ext environ m = Inr (PyTuple (url @ encode_name ext p) (Some p))"
    by (simp add: SpaceLinker_def call_space_uri_def split1_no_sep)
qed

theorem SpaceLinker_result_witness:
  "space_uri sample_ext = Some sample_space_uri \<and>
   sample_space_uri sample_environ ''acme'' = Inr ''http://acme.example.org/'' \<and>
   SpaceLinker sample_ext sample_environ \<lparr>span = (0, 7), groups = [''acme'']\<rparr> =
     Inr (PyTuple ''http://acme.example.org/'' (Some ''@acme'')) \<and>
   SpaceLinker sample_ext sample_environ \<lparr>span = (0, 21), groups = [''My Page|Home'', ''acme'']\<rparr> =
     Inr (PyTuple ''http://acme.example.org/Home'' (Some ''My Page'')) \<and>
   SpaceLinker sample_ext sample_environ \<lparr>span = (0, 12), groups = [''FooBar'', ''acme'']\<rparr> =
     Inr (PyTuple ''http://acme.example.org/FooBar'' (Some ''FooBar''))"
proof -
  have f: "space_uri sample_ext = Some sample_space_uri"
    by (simp add: sample_ext_def)
  have u: "sample_space_uri sample_environ ''acme'' = Inr ''http://acme.example.org/''"
    by (simp add: sample_space_uri_def)
  have e: "encode_name sample_ext = (\<lambda>s. s)"
    by (simp add: sample_ext_def)
  from SpaceLinker_result[OF f u, of "\<lparr>span = (0, 7), groups = [''acme'']\<rparr>"]
  have a: "SpaceLinker sample_ext sample_environ \<lparr>span = (0, 7), groups = [''acme'']\<rparr> =
     Inr (PyTuple ''http://acme.example.org/'' (Some ''@acme''))"
    by simp
  from SpaceLinker_result[OF f u, of "\<lparr>span = (0, 21), groups = [''My Page|Home'', ''acme'']\<rparr>"
      "''My Page''" "''Home''"]
  have b: "SpaceLinker sample_ext sample_environ \<lparr>span = (0, 21), groups = [''My Page|Home'', ''acme'']\<rparr> =
     Inr (PyTuple ''http://acme.example.org/Home'' (Some ''My Page''))"
    by (simp add: e)
  from SpaceLinker_result[OF f u, of "\<lparr>span = (0, 12), groups = [''FooBar'', ''acme'']\<rparr>" _ _ "''FooBar''"]
  have c: "SpaceLinker sample_ext sample_environ \<lparr>span = (0, 12), groups = [''FooBar'', ''acme'']\<rparr> =
     Inr (PyTuple ''http://acme.example.org/FooBar'' (Some ''FooBar''))"
    by (simp add: e)
  from f u a b c show ?thesis by blast
qed

section \<open>A callable that returns a single string\<close>

text \<open>
  A string whose length is not two fails to unpack, and the handler takes all of it as
  the href, with no title.
\<close>

lemma scalar_of_other_length:
  "length s \<noteq> 2 \<Longrightarrow> apply_repl (Callable (\<lambda>m. Inr (PyStr s))) m = Inr (s, None)"
  by (cases s rule: unpack2.cases) auto

text \<open>
  Claim C7 at the return value \<open>'ab'\<close>: the unpacking \<open>href, title = components\<close> succeeds
  on a string of two characters, so the engine takes \<open>a\<close> as the href and \<open>b\<close> as the
  title, and the anchor in the output is built from them; the string as a whole is not
  the href and the title is not left \<open>None\<close>.
\<close>

theorem two_character_string_is_unpacked:
  "apply_repl (Callable (\<lambda>m. Inr (PyStr ''ab''))) \<lparr>span = (0, 5), groups = [''A'']\<rparr> =
     Inr (''a'', Some ''b'') \<and>
   do_link_patterns sample_ext [(Freelink, Callable (\<lambda>m. Inr (PyStr ''ab'')))] ''[[A]]'' =
     Inr ''<a href=\"a\">b</a>''"
proof -
  have "apply_repl (Callable (\<lambda>m. Inr (PyStr ''ab''))) \<lparr>span = (0, 5), groups = [''A'']\<rparr> =
     Inr (''a'', Some ''b'')"
    by simp
  moreover have "do_link_patterns sample_ext [(Freelink, Callable (\<lambda>m. Inr (PyStr ''ab'')))] ''[[A]]'' =
     Inr ''<a href=\"a\">b</a>''"
    by code_simp
  ultimately show ?thesis by blast
qed

section \<open>The anchor built for a match\<close>

text \<open>
  The three successive \<open>replace\<close> calls on the href amount to escaping each of its
  characters on its own, provided the escape-table entry for \<open>*\<close> holds no underscore
  (markdown2's entries are hashes: \<open>md5-\<close> and hexadecimal digits).
\<close>

lemma escape_href_spec:
  assumes "CHR ''_'' \<notin> set (g_escape_table ext CHR ''*'')"
  shows "escape_href ext href = concat (map (spec_escape_char ext) href)"
proof -
  let ?f1 = "\<lambda>c. if c = CHR 0x22 then ''&quot;'' else [c]"
  let ?f2 = "\<lambda>c. if c = CHR ''*'' then g_escape_table ext CHR ''*'' else [c]"
  let ?f3 = "\<lambda>c. if c = CHR ''_'' then g_escape_table ext CHR ''_'' else [c]"
  have star: "concat (map ?f3 (g_escape_table ext CHR ''*'')) = g_escape_table ext CHR ''*''"
    using assms by (rule replace_char_absent)
  have "concat (map ?f3 (concat (map ?f2 (concat (map ?f1 href))))) =
          concat (map (spec_escape_char ext) href)"
  proof (induction href)
    case Nil
    show ?case by simp
  next
    case (Cons c cs)
    have "concat (map ?f3 (concat (map ?f2 (?f1 c)))) = spec_escape_char ext c"
      using star by (simp add: spec_escape_char_def)
    with Cons show ?case by simp
  qed
  then show ?thesis
    by (simp add: escape_href_def replace_from_char)
qed

lemma make_link_spec:
  assumes "CHR ''_'' \<notin> set (g_escape_table ext CHR ''*'')"
  shows "make_link ext tx (sp, href, title) = spec_anchor ext href title (slice tx (fst sp) (snd sp))"
  using escape_href_spec[OF assms]
  by (cases sp) (simp add: make_link_def spec_anchor_def split: option.splits)

text \<open>
  Claim C4. Let the matches of a pattern give the replacements \<open>reps\<close>: for each match its
  span, the href of its strategy and the title (which may be \<open>None\<close>). Processing the
  pattern replaces the span of every match by the placeholder of the anchor
  \<open><a href="E">T</a>\<close>, and records that anchor under the placeholder, where \<open>E\<close> is the href
  with every double quote replaced by \<open>&quot;\<close> and every \<open>*\<close> and \<open>_\<close> replaced by its entry of the
  escape table, and \<open>T\<close> is the title, or the matched source text \<open>text[start:end]\<close> when the
  title is \<open>None\<close> or empty (\<open>spec_anchor\<close>). The escape-table entry for \<open>*\<close> is taken to hold no
  underscore, as in markdown2.
\<close>

theorem anchor_html_exact:
  assumes "collect_replacements rp (finditer re tx) = Inr reps"
    and "CHR ''_'' \<notin> set (g_escape_table ext CHR ''*'')"
  shows "run_patterns ext ((re, rp) # ps) (tx, lfh) =
           run_patterns ext ps
             (splice_from 0 tx
                (map (\<lambda>(sp, href, title).
                        (sp, hash_text ext (spec_anchor ext href title (slice tx (fst sp) (snd sp)))))
                   reps),
              fold (\<lambda>(sp, href, title) d.
                      dict_set d (hash_text ext (spec_anchor ext href title (slice tx (fst sp) (snd sp))))
                        (spec_anchor ext href title (slice tx (fst sp) (snd sp))))
                (rev reps) lfh)"
proof -
  have p: "placeholder ext tx =
             (\<lambda>(sp, href, title). (sp, hash_text ext (spec_anchor ext href title (slice tx (fst sp) (snd sp)))))"
    by (auto simp: placeholder_def make_link_spec[OF assms(2)] fun_eq_iff)
  have r: "record_link ext tx =
             (\<lambda>(sp, href, title) d.
                dict_set d (hash_text ext (spec_anchor ext href title (slice tx (fst sp) (snd sp))))
                  (spec_anchor ext href title (slice tx (fst sp) (snd sp))))"
    by (auto simp: record_link_def make_link_spec[OF assms(2)] fun_eq_iff)
  from run_patterns_step[OF assms(1), of ext ps lfh] show ?thesis
    unfolding p r .
qed

theorem anchor_html_exact_witness:
  "collect_replacements (Callable (FreeLinker [])) (finditer Freelink ''[[L|a\"b*c_d]] [[|p]]'') =
     Inr [((0, 13), ''a\"b*c_d'', Some ''L''), ((14, 20), ''p'', Some [])] \<and>
   CHR ''_'' \<notin> set (g_escape_table sample_ext CHR ''*'') \<and>
   g_escape_table sample_ext CHR ''*'' = ''md5-2a'' \<and>
   g_escape_table sample_ext CHR ''_'' = ''md5-5f'' \<and>
   do_link_patterns sample_ext [(Freelink, Callable (FreeLinker []))] ''[[L|a\"b*c_d]] [[|p]]'' =
     Inr ''<a href=\"a&quot;bmd5-2acmd5-5fd\">L</a> <a href=\"p\">[[|p]]</a>''"
proof -
  let ?tx = "''[[L|a\"b*c_d]] [[|p]]''"
  let ?reps = "[((0, 13), ''a\"b*c_d'', Some ''L''), ((14, 20), ''p'', Some [])]"
  let ?S = "splice_from 0 ?tx
              (map (\<lambda>(sp, href, title).
                      (sp, hash_text sample_ext (spec_anchor sample_ext href title (slice ?tx (fst sp) (snd sp)))))
                 ?reps)"
  let ?D = "fold (\<lambda>(sp, href, title) d.
                    dict_set d (hash_text sample_ext (spec_anchor sample_ext href title (slice ?tx (fst sp) (snd sp))))
                      (spec_anchor sample_ext href title (slice ?tx (fst sp) (snd sp))))
              (rev ?reps) []"
  have h1: "collect_replacements (Callable (FreeLinker [])) (finditer Freelink ?tx) = Inr ?reps"
    by code_simp
  have h2: "CHR ''_'' \<notin> set (g_escape_table sample_ext CHR ''*'')"
    by code_simp
  have t: "g_escape_table sample_ext CHR ''*'' = ''md5-2a''" "g_escape_table sample_ext CHR ''_'' = ''md5-5f''"
    by code_simp+
  have c: "run_patterns sample_ext [(Freelink, Callable (FreeLinker []))] (?tx, []) = Inr (?S, ?D)"
    using anchor_html_exact[OF h1 h2, of "[]" "[]"] by (simp only: run_patterns.simps(1))
  have r: "expand_hashes ?D ?S = ''<a href=\"a&quot;bmd5-2acmd5-5fd\">L</a> <a href=\"p\">[[|p]]</a>''"
    by code_simp
  have "do_link_patterns sample_ext [(Freelink, Callable (FreeLinker []))] ?tx =
          Inr ''<a href=\"a&quot;bmd5-2acmd5-5fd\">L</a> <a href=\"p\">[[|p]]</a>''"
    unfolding do_link_patterns_def c using r by simp
  with h1 h2 t show ?thesis by blast
qed

section \<open>The static templates\<close>

text \<open>
  Claim C5. For every match of the CamelCase wiki-link pattern and of the bare-URL
  pattern, the template \<open>r'\1'\<close> returns the matched text itself as href, unescaped, and
  no title, so that the label defaults to the matched text. The anchor that the engine
  builds for the match has the matched text as its visible label; in its href every
  underscore is written as the escape table's entry for \<open>_\<close> (a match of these patterns
  holds no double quote and no asterisk, so nothing else is escaped). The href is
  therefore the matched text as it stands when the match has no underscore, and it is
  the matched text once the converter has undone its escape table, provided the entries
  for \<open>*\<close> and \<open>_\<close> differ, are not empty and occur in the anchor only where an underscore
  was escaped.
\<close>

theorem template_anchor_of_match:
  assumes "re = Wikilink \<or> re = Barelink"
  shows "(\<forall>m\<in>set (finditer re tx). apply_repl (Template [Group 1]) m = Inr (matched tx m, None)) \<and>
         run_patterns ext [(re, Template [Group 1])] (tx, lfh) =
           Inr (splice_from 0 tx
                  (map (\<lambda>m. (span m, hash_text ext (template_anchor ext (matched tx m))))
                     (finditer re tx)),
                fold (\<lambda>m d. dict_set d (hash_text ext (template_anchor ext (matched tx m)))
                               (template_anchor ext (matched tx m)))
                  (rev (finditer re tx)) lfh) \<and>
         (CHR ''_'' \<notin> set w \<longrightarrow> template_anchor ext w = ''<a href=\"'' @ w @ ''\">'' @ w @ ''</a>'') \<and>
         (g_escape_table ext CHR ''*'' \<noteq> g_escape_table ext CHR ''_'' \<and>
          stepwise_clean (escape_entries ext) (anchor_pieces ext w) \<longrightarrow>
            unescape_special_chars ext (template_anchor ext w) =
              ''<a href=\"'' @ w @ ''\">'' @ w @ ''</a>'')"
proof (intro conjI)
  define ms where "ms = finditer re tx"
  define R where "R = (\<lambda>m::re_match. (span m, matched tx m, None :: string option))"
  define A where "A = (\<lambda>m::re_match. template_anchor ext (matched tx m))"
  have each: "groups m = [matched tx m] \<and> matched tx m \<noteq> [] \<and> (\<forall>c\<in>set (matched tx m). plain_char c)"
    if "m \<in> set ms" for m
  proof -
    from that finditer_match_at[of m re tx] obtain q where "match_at re tx q = Some m"
      by (auto simp: ms_def)
    from match_at_template[OF this assms] show ?thesis .
  qed
  have ap: "apply_repl (Template [Group 1]) m = Inr (snd (R m))" if "m \<in> set ms" for m
    using each[OF that] by (simp add: R_def)
  then show "\<forall>m\<in>set (finditer re tx). apply_repl (Template [Group 1]) m = Inr (matched tx m, None)"
    by (simp add: ms_def R_def)
  have "collect_replacements (Template [Group 1]) ms = Inr (map (\<lambda>m. (span m, snd (R m))) ms)"
    by (rule collect_replacements_all) (rule ap)
  then have c: "collect_replacements (Template [Group 1]) (finditer re tx) = Inr (map R ms)"
    by (simp add: R_def ms_def)
  have ml: "fst (R m) = span m \<and> make_link ext tx (R m) = A m" if "m \<in> set ms" for m
    using each[OF that] template_make_link[of tx m ext] by (simp add: R_def A_def)
  from run_patterns_step[OF c, of ext "[]" lfh]
  have "run_patterns ext [(re, Template [Group 1])] (tx, lfh) =
          Inr (splice_from 0 tx (map (placeholder ext tx) (map R ms)),
               fold (record_link ext tx) (rev (map R ms)) lfh)"
    by simp
  also have "map (placeholder ext tx) (map R ms) = map (\<lambda>m. (span m, hash_text ext (A m))) ms"
    by (rule map_placeholder_map) (rule ml)
  also have "fold (record_link ext tx) (rev (map R ms)) lfh =
               fold (\<lambda>m d. dict_set d (hash_text ext (A m)) (A m)) (rev ms) lfh"
    by (rule fold_record_link_map) (simp add: ml)
  finally show "run_patterns ext [(re, Template [Group 1])] (tx, lfh) =
           Inr (splice_from 0 tx
                  (map (\<lambda>m. (span m, hash_text ext (template_anchor ext (matched tx m))))
                     (finditer re tx)),
                fold (\<lambda>m d. dict_set d (hash_text ext (template_anchor ext (matched tx m)))
                               (template_anchor ext (matched tx m)))
                  (rev (finditer re tx)) lfh)"
    by (simp add: A_def ms_def)
next
  show "CHR ''_'' \<notin> set w \<longrightarrow> template_anchor ext w = ''<a href=\"'' @ w @ ''\">'' @ w @ ''</a>''"
    by (simp add: template_anchor_def replace_char_absent)
next
  show "g_escape_table ext CHR ''*'' \<noteq> g_escape_table ext CHR ''_'' \<and>
          stepwise_clean (escape_entries ext) (anchor_pieces ext w) \<longrightarrow>
            unescape_special_chars ext (template_anchor ext w) =
              ''<a href=\"'' @ w @ ''\">'' @ w @ ''</a>''"
    using unescape_template_anchor[of ext w] by blast
qed

theorem template_anchor_of_match_witness:
  "(Wikilink = Wikilink \<or> Wikilink = Barelink) \<and>
   finditer Wikilink '' FooBar and WikiWord_x'' =
     [\<lparr>span = (1, 7), groups = [''FooBar'']\<rparr>, \<lparr>span = (12, 22), groups = [''WikiWord_x'']\<rparr>] \<and>
   apply_repl (Template [Group 1]) \<lparr>span = (1, 7), groups = [''FooBar'']\<rparr> = Inr (''FooBar'', None) \<and>
   apply_repl (Template [Group 1]) \<lparr>span = (12, 22), groups = [''WikiWord_x'']\<rparr> =
     Inr (''WikiWord_x'', None) \<and>
   template_anchor sample_ext ''FooBar'' = ''<a href=\"FooBar\">FooBar</a>'' \<and>
   unescape_special_chars sample_ext (template_anchor sample_ext ''WikiWord_x'') =
     ''<a href=\"WikiWord_x\">WikiWord_x</a>'' \<and>
   render (sample_ext\<lparr>convert := unescape_special_chars sample_ext\<rparr>)
     \<lparr>tiddler_text = '' FooBar and WikiWord_x''\<rparr> sample_environ =
     Inr '' <a href=\"FooBar\">FooBar</a> and <a href=\"WikiWord_x\">WikiWord_x</a>'' \<and>
   render (sample_ext\<lparr>convert := unescape_special_chars sample_ext\<rparr>)
     \<lparr>tiddler_text = ''see http://a.b/c_d?e=f now''\<rparr> sample_environ =
     Inr ''see <a href=\"http://a.b/c_d?e=f\">http://a.b/c_d?e=f</a> now''"
proof -
  let ?tx = "'' FooBar and WikiWord_x''"
  let ?m1 = "\<lparr>span = (1, 7), groups = [''FooBar'']\<rparr>"
  let ?m2 = "\<lparr>span = (12, 22), groups = [''WikiWord_x'']\<rparr>"
  have d: "Wikilink = Wikilink \<or> Wikilink = Barelink"
    by simp
  note w1 = template_anchor_of_match[OF d, where tx="?tx" and ext=sample_ext and w="''FooBar''"]
  note w2 = template_anchor_of_match[OF d, where tx="?tx" and ext=sample_ext and w="''WikiWord_x''"]
  have f: "finditer Wikilink ?tx = [?m1, ?m2]"
    by code_simp
  have a1: "apply_repl (Template [Group 1]) ?m1 = Inr (''FooBar'', None)"
    using conjunct1[OF w1] f by (simp add: matched_def slice_def)
  have a2: "apply_repl (Template [Group 1]) ?m2 = Inr (''WikiWord_x'', None)"
    using conjunct1[OF w1] f by (simp add: matched_def slice_def)
  have t: "template_anchor sample_ext ''FooBar'' = ''<a href=\"FooBar\">FooBar</a>''"
    using conjunct1[OF conjunct2[OF conjunct2[OF w1]]] by simp
  have h1: "g_escape_table sample_ext CHR ''*'' \<noteq> g_escape_table sample_ext CHR ''_''"
    by code_simp
  have h2: "stepwise_clean (escape_entries sample_ext) (anchor_pieces sample_ext ''WikiWord_x'')"
    by code_simp
  have u: "unescape_special_chars sample_ext (template_anchor sample_ext ''WikiWord_x'') =
     ''<a href=\"WikiWord_x\">WikiWord_x</a>''"
    using conjunct2[OF conjunct2[OF conjunct2[OF w2]]] h1 h2 by simp
  have r1: "render (sample_ext\<lparr>convert := unescape_special_chars sample_ext\<rparr>)
     \<lparr>tiddler_text = ?tx\<rparr> sample_environ =
     Inr '' <a href=\"FooBar\">FooBar</a> and <a href=\"WikiWord_x\">WikiWord_x</a>''"
    by code_simp
  have r2: "render (sample_ext\<lparr>convert := unescape_special_chars sample_ext\<rparr>)
     \<lparr>tiddler_text = ''see http://a.b/c_d?e=f now''\<rparr> sample_environ =
     Inr ''see <a href=\"http://a.b/c_d?e=f\">http://a.b/c_d?e=f</a> now''"
    by code_simp
  from d f a1 a2 t u r1 r2 show ?thesis by blast
qed

section \<open>A tenant that does not resolve\<close>

text \<open>
  Claim C8. Let a tenant pattern of the registry be reached (the patterns before it
  went through), and let \<open>m\<close> be a match of it on the text as it then is, such that
  \<open>space_uri\<close> returned for the matches before \<open>m\<close> and raises \<open>e\<close> for the tenant identifier
  of \<open>m\<close> (the last group of a tenant match). Then the link substitution ends with the
  error \<open>e\<close> itself, and so does \<open>render\<close>: the result is the error and no text.
\<close>

theorem tenant_error_aborts_render:
  assumes "link_patterns ext environ = ps1 @ (re, Callable (SpaceLinker ext environ)) # ps2"
    and "re \<in> {Spacelink, Spacewikilink, Spacefreelink}"
    and "run_patterns ext ps1 (tiddler_text tid, []) = Inr st"
    and "finditer re (fst st) = ms1 @ m # ms2"
    and "space_uri ext = Some f"
    and "\<forall>m'\<in>set ms1. \<exists>url. f environ (last (groups m')) = Inr url"
    and "f environ (last (groups m)) = Inl e"
  shows "do_link_patterns ext (link_patterns ext environ) (tiddler_text tid) = Inl e \<and>
         render ext tid environ = Inl e"
proof -
  have shape: "groups x = [last (groups x)] \<or> (\<exists>p. groups x = [p, last (groups x)])"
    if "x \<in> set (finditer re (fst st))" for x
  proof -
    from finditer_match_at[OF that] obtain q where "match_at re (fst st) q = Some x" by blast
    from tenant_match_groups[OF this assms(2)]
    obtain s where s: "groups x = [s] \<or> (\<exists>p. groups x = [p, s])" by blast
    then have "last (groups x) = s" by auto
    with s show ?thesis by simp
  qed
  have ok: "\<forall>m'\<in>set ms1. \<exists>v. apply_repl (Callable (SpaceLinker ext environ)) m' = Inr v"
  proof
    fix m' assume m': "m' \<in> set ms1"
    with assms(4) have "m' \<in> set (finditer re (fst st))" by simp
    from SpaceLinker_tenant[OF shape[OF this] assms(5), of environ] assms(6) m'
    obtain c where "SpaceLinker ext environ m' = Inr c" by blast
    then show "\<exists>v. apply_repl (Callable (SpaceLinker ext environ)) m' = Inr v" by simp
  qed
  have "m \<in> set (finditer re (fst st))" using assms(4) by simp
  from SpaceLinker_tenant[OF shape[OF this] assms(5), of environ] assms(7)
  have "SpaceLinker ext environ m = Inl e" by blast
  then have "apply_repl (Callable (SpaceLinker ext environ)) m = Inl e" by simp
  from collect_replacements_error[OF ok this, of ms2] assms(4)
  have "collect_replacements (Callable (SpaceLinker ext environ)) (finditer re (fst st)) = Inl e"
    by simp
  then have "run_patterns ext ((re, Callable (SpaceLinker ext environ)) # ps2) st = Inl e"
    by simp
  with assms(1,3) have "run_patterns ext (link_patterns ext environ) (tiddler_text tid, []) = Inl e"
    by (simp add: run_patterns_append)
  then show ?thesis
    by (simp add: do_link_patterns_def render_def markdown_convert_def)
qed

theorem tenant_error_aborts_render_witness:
  "link_patterns sample_ext sample_environ =
     [(Spacefreelink, Callable (SpaceLinker sample_ext sample_environ)),
      (Spacewikilink, Callable (SpaceLinker sample_ext sample_environ))] @
     (Spacelink, Callable (SpaceLinker sample_ext sample_environ)) #
     [(Freelink, Callable (FreeLinker [])), (Wikilink, Template [Group 1]),
      (Barelink, Template [Group 1])] \<and>
   finditer Spacelink ''see @acme and @nowhere '' =
     [\<lparr>span = (3, 10), groups = [''acme'']\<rparr>] @ \<lparr>span = (13, 23), groups = [''nowhere'']\<rparr> # [] \<and>
   sample_space_uri sample_environ ''acme'' = Inr ''http://acme.example.org/'' \<and>
   sample_space_uri sample_environ ''nowhere'' = Inl (External ''no such space'') \<and>
   render sample_ext \<lparr>tiddler_text = ''see @acme and @nowhere ''\<rparr> sample_environ =
     Inl (External ''no such space'')"
proof -
  let ?tx = "''see @acme and @nowhere ''"
  let ?sl = "Callable (SpaceLinker sample_ext sample_environ)"
  let ?ps1 = "[(Spacefreelink, ?sl), (Spacewikilink, ?sl)]"
  let ?ps2 = "[(Freelink, Callable (FreeLinker [])), (Wikilink, Template [Group 1]),
      (Barelink, Template [Group 1])]"
  let ?m1 = "\<lparr>span = (3, 10), groups = [''acme'']\<rparr>"
  let ?m2 = "\<lparr>span = (13, 23), groups = [''nowhere'']\<rparr>"
  have h1: "link_patterns sample_ext sample_environ = ?ps1 @ (Spacelink, ?sl) # ?ps2"
    by (simp add: link_patterns_def PATTERNS_def wiki_link_base_sample) (simp add: sample_ext_def)
  have h2: "Spacelink \<in> {Spacelink, Spacewikilink, Spacefreelink}"
    by simp
  have f1: "finditer Spacefreelink ?tx = []" "finditer Spacewikilink ?tx = []"
    by code_simp+
  have h3: "run_patterns sample_ext ?ps1 (tiddler_text \<lparr>tiddler_text = ?tx\<rparr>, []) = Inr (?tx, [])"
    by (simp add: f1)
  have h4: "finditer Spacelink (fst (?tx, [] :: link_dict)) = [?m1] @ ?m2 # []"
    by code_simp
  have h5: "space_uri sample_ext = Some sample_space_uri"
    by (simp add: sample_ext_def)
  have u1: "sample_space_uri sample_environ ''acme'' = Inr ''http://acme.example.org/''"
    by (simp add: sample_space_uri_def)
  have h6: "\<forall>m'\<in>set [?m1]. \<exists>url. sample_space_uri sample_environ (last (groups m')) = Inr url"
    using u1 by simp
  have u2: "sample_space_uri sample_environ ''nowhere'' = Inl (External ''no such space'')"
    by (simp add: sample_space_uri_def)
  then have h7: "sample_space_uri sample_environ (last (groups ?m2)) = Inl (External ''no such space'')"
    by simp
  from tenant_error_aborts_render[OF h1 h2 h3 h4 h5 h6 h7]
  have "render sample_ext \<lparr>tiddler_text = ?tx\<rparr> sample_environ = Inl (External ''no such space'')"
    by blast
  moreover from h4 have "finditer Spacelink ?tx = [?m1] @ ?m2 # []"
    by simp
  ultimately show ?thesis using h1 u1 u2 by blast
qed

section \<open>The title is inserted as it is\<close>

lemma make_link_label_of:
  "make_link ext tx (sp, href, title) =
     ''<a href=\"'' @ escape_href ext href @ ''\">'' @ label_of title (slice tx (fst sp) (snd sp)) @ ''</a>''"
  by (cases sp) (simp add: make_link_def label_of_def split: option.splits)

text \<open>
  Claim C10. For every match of a pattern, the anchor whose placeholder is spliced and
  which is recorded in the placeholder map is \<open><a href="\<close>, the escaped href, \<open>">\<close>, the
  label and \<open></a>\<close>: \<open>escape_href\<close> is applied to the href and to nothing else, and the
  label (the title returned by the strategy, or the matched source text when the title
  is \<open>None\<close> or empty) stands between \<open>">\<close> and \<open></a>\<close> character for character. In the
  worked example the label \<open>a "*_< b\<close> reaches the output unchanged while the underscore
  of the href is escaped.
\<close>

theorem title_inserted_verbatim:
  assumes "collect_replacements rp (finditer re tx) = Inr reps"
  shows "run_patterns ext ((re, rp) # ps) (tx, lfh) =
           run_patterns ext ps
             (splice_from 0 tx
                (map (\<lambda>(sp, href, title).
                        (sp, hash_text ext
                               (''<a href=\"'' @ escape_href ext href @ ''\">'' @
                                label_of title (slice tx (fst sp) (snd sp)) @ ''</a>'')))
                   reps),
              fold (\<lambda>(sp, href, title) d.
                      dict_set d
                        (hash_text ext
                           (''<a href=\"'' @ escape_href ext href @ ''\">'' @
                            label_of title (slice tx (fst sp) (snd sp)) @ ''</a>''))
                        (''<a href=\"'' @ escape_href ext href @ ''\">'' @
                         label_of title (slice tx (fst sp) (snd sp)) @ ''</a>''))
                (rev reps) lfh)"
proof -
  have p: "placeholder ext tx =
             (\<lambda>(sp, href, title).
                (sp, hash_text ext
                       (''<a href=\"'' @ escape_href ext href @ ''\">'' @
                        label_of title (slice tx (fst sp) (snd sp)) @ ''</a>'')))"
    by (auto simp: placeholder_def make_link_label_of fun_eq_iff)
  have r: "record_link ext tx =
             (\<lambda>(sp, href, title) d.
                dict_set d
                  (hash_text ext
                     (''<a href=\"'' @ escape_href ext href @ ''\">'' @
                      label_of title (slice tx (fst sp) (snd sp)) @ ''</a>''))
                  (''<a href=\"'' @ escape_href ext href @ ''\">'' @
                   label_of title (slice tx (fst sp) (snd sp)) @ ''</a>''))"
    by (auto simp: record_link_def make_link_label_of fun_eq_iff)
  from run_patterns_step[OF assms, of ext ps lfh] show ?thesis
    unfolding p r .
qed

theorem title_inserted_verbatim_witness:
  "collect_replacements (Callable (FreeLinker [])) (finditer Freelink ''[[a \"*_< b|p_q]] [[|r]]'') =
     Inr [((0, 16), ''p_q'', Some ''a \"*_< b''), ((17, 23), ''r'', Some [])] \<and>
   label_of (Some ''a \"*_< b'') ''[[a \"*_< b|p_q]]'' = ''a \"*_< b'' \<and>
   label_of (Some []) ''[[|r]]'' = ''[[|r]]'' \<and>
   do_link_patterns sample_ext [(Freelink, Callable (FreeLinker []))] ''[[a \"*_< b|p_q]] [[|r]]'' =
     Inr ''<a href=\"pmd5-5fq\">a \"*_< b</a> <a href=\"r\">[[|r]]</a>''"
proof -
  let ?tx = "''[[a \"*_< b|p_q]] [[|r]]''"
  let ?reps = "[((0, 16), ''p_q'', Some ''a \"*_< b''), ((17, 23), ''r'', Some [])]"
  let ?S = "splice_from 0 ?tx
                (map (\<lambda>(sp, href, title).
                        (sp, hash_text sample_ext
                               (''<a href=\"'' @ escape_href sample_ext href @ ''\">'' @
                                label_of title (slice ?tx (fst sp) (snd sp)) @ ''</a>'')))
                   ?reps)"
  let ?D = "fold (\<lambda>(sp, href, title) d.
                      dict_set d
                        (hash_text sample_ext
                           (''<a href=\"'' @ escape_href sample_ext href @ ''\">'' @
                            label_of title (slice ?tx (fst sp) (snd sp)) @ ''</a>''))
                        (''<a href=\"'' @ escape_href sample_ext href @ ''\">'' @
                         label_of title (slice ?tx (fst sp) (snd sp)) @ ''</a>''))
                (rev ?reps) []"
  have h: "collect_replacements (Callable (FreeLinker [])) (finditer Freelink ?tx) = Inr ?reps"
    by code_simp
  have l: "label_of (Some ''a \"*_< b'') ''[[a \"*_< b|p_q]]'' = ''a \"*_< b''"
    "label_of (Some []) ''[[|r]]'' = ''[[|r]]''"
    by (simp_all add: label_of_def)
  have c: "run_patterns sample_ext [(Freelink, Callable (FreeLinker []))] (?tx, []) = Inr (?S, ?D)"
    using title_inserted_verbatim[OF h, of sample_ext "[]" "[]"] by (simp only: run_patterns.simps(1))
  have r: "expand_hashes ?D ?S = ''<a href=\"pmd5-5fq\">a \"*_< b</a> <a href=\"r\">[[|r]]</a>''"
    by code_simp
  have "do_link_patterns sample_ext [(Freelink, Callable (FreeLinker []))] ?tx =
          Inr ''<a href=\"pmd5-5fq\">a \"*_< b</a> <a href=\"r\">[[|r]]</a>''"
    unfolding do_link_patterns_def c using r by simp
  with h l show ?thesis by blast
qed

section \<open>The placeholder map and the final pass\<close>

text \<open>
  Within one pattern the placeholders come back as their anchors: when the hash gives
  distinct keys to the distinct anchors of the pattern's matches, and every key is not
  empty and, when its turn comes in the final pass, occurs in the text only where a
  placeholder for it was spliced, the output is the text with the span of every match
  replaced by that match's own anchor.
\<close>

lemma one_pattern_round_trip:
  assumes c: "collect_replacements rp (finditer re tx) = Inr reps"
    and i: "inj_on (hash_text ext) (make_link ext tx ` set reps)"
    and s: "stepwise_clean (fold (record_link ext tx) (rev reps) [])
              (pieces_from 0 tx (map (placeholder ext tx) reps))"
  shows "do_link_patterns ext [(re, rp)] tx =
           Inr (splice_from 0 tx (map (\<lambda>r. (fst r, make_link ext tx r)) reps))"
proof -
  let ?d = "fold (record_link ext tx) (rev reps) []"
  let ?ps = "pieces_from 0 tx (map (placeholder ext tx) reps)"
  from run_patterns_step[OF c, of ext "[]" "[]"]
  have "run_patterns ext [(re, rp)] (tx, []) = Inr (flatten ?ps, ?d)"
    by (simp add: flatten_pieces_from)
  then have "do_link_patterns ext [(re, rp)] tx = Inr (flatten (map (expand_piece ?d) ?ps))"
    using s by (simp add: do_link_patterns_def expand_hashes_pieces)
  also have "flatten (map (expand_piece ?d) ?ps) =
      splice_from 0 tx (map (\<lambda>r. (fst r, make_link ext tx r)) reps)"
    by (rule expand_pieces_from) (rule recorded_links[OF i])
  finally show ?thesis .
qed

text \<open>
  Across patterns a placeholder is ordinary text to the patterns that follow. Whatever
  the converter's hash is, when the token that follows the word \<open>FooBar\<close> begins with a
  word character (markdown2's tokens begin with \<open>md5\<close>), the match of the wiki-link
  pattern runs on into the token.
\<close>

lemma wiki_word_reaches_into_token:
  assumes "is_word c"
  shows "match_at Wikilink (''see FooBar'' @ c # rest) 4 =
           Some \<lparr>span = (4, 11 + length (takeWhile is_word rest)),
                 groups = [''FooBar'' @ c # takeWhile is_word rest]\<rparr>"
proof -
  have u: "is_upper CHR ''F''" "is_upper CHR ''B''" "\<not> is_lower CHR ''B''"
    "is_lower CHR ''o''" "is_word CHR ''a''" "is_word CHR ''r''" "is_space CHR '' ''"
    by (simp_all add: is_upper_def is_lower_def is_word_def is_space_def)
  have "wikiword (''FooBar'' @ c # rest) = Some (''FooBar'' @ c # takeWhile is_word rest)"
    using assms u by (simp add: wikiword_def)
  moreover have "drop 4 (''see FooBar'' @ c # rest) = ''FooBar'' @ c # rest"
    by simp
  moreover have "(''see FooBar'' @ c # rest) ! (4 - 1) = CHR '' ''"
    by simp
  ultimately show ?thesis
    using u(7) by (simp del: append.simps)
qed

text \<open>
  Claim C9 at the text \<open>see FooBar @acme now\<close>, with a link base configured and the
  tenant support imported. The document holds no key and the keys of the call differ.
  The space-link pattern replaces \<open>@acme\<close>, with the blanks around it, by its
  placeholder, which then follows \<open>FooBar\<close> directly; the wiki-link pattern, which comes
  later in the registry, matches \<open>FooBarmd5\<close>, the word and the first three characters of
  the placeholder, and splices its own placeholder over them. The final pass finds the
  key of \<open>@acme\<close> nowhere: the output holds an anchor for \<open>FooBarmd5\<close> followed by the
  rest of the token, and the anchor of \<open>@acme\<close> is lost. Without the tenant support the
  same happens to the free link of \<open>FooBar[[A]]\<close>.
\<close>

theorem later_pattern_eats_placeholder:
  "run_patterns sample_ext [(Spacelink, Callable (SpaceLinker sample_ext sample_environ))]
     (''see FooBar @acme now'', []) =
     Inr (''see FooBar'' @ sample_hash ''<a href=\"http://acme.example.org/\">@acme</a>'' @ ''now'',
          [(sample_hash ''<a href=\"http://acme.example.org/\">@acme</a>'',
            ''<a href=\"http://acme.example.org/\">@acme</a>'')]) \<and>
   take 3 (sample_hash ''<a href=\"http://acme.example.org/\">@acme</a>'') = ''md5'' \<and>
   finditer Wikilink
     (''see FooBar'' @ sample_hash ''<a href=\"http://acme.example.org/\">@acme</a>'' @ ''now'') =
     [\<lparr>span = (4, 13), groups = [''FooBarmd5'']\<rparr>] \<and>
   do_link_patterns sample_ext (link_patterns sample_ext sample_environ) ''see FooBar @acme now'' =
     Inr (''see <a href=\"FooBarmd5\">FooBarmd5</a>'' @
          drop 3 (sample_hash ''<a href=\"http://acme.example.org/\">@acme</a>'') @ ''now'') \<and>
   do_link_patterns (sample_ext\<lparr>space_uri := None\<rparr>)
     (link_patterns (sample_ext\<lparr>space_uri := None\<rparr>) sample_environ) '' FooBar[[A]]'' =
     Inr ('' <a href=\"FooBarmd5\">FooBarmd5</a>'' @ drop 3 (sample_hash ''<a href=\"A\">A</a>''))"
proof -
  have "run_patterns sample_ext [(Spacelink, Callable (SpaceLinker sample_ext sample_environ))]
     (''see FooBar @acme now'', []) =
     Inr (''see FooBar'' @ sample_hash ''<a href=\"http://acme.example.org/\">@acme</a>'' @ ''now'',
          [(sample_hash ''<a href=\"http://acme.example.org/\">@acme</a>'',
            ''<a href=\"http://acme.example.org/\">@acme</a>'')])"
    by code_simp
  moreover have "take 3 (sample_hash ''<a href=\"http://acme.example.org/\">@acme</a>'') = ''md5''"
    by code_simp
  moreover have "finditer Wikilink
     (''see FooBar'' @ sample_hash ''<a href=\"http://acme.example.org/\">@acme</a>'' @ ''now'') =
     [\<lparr>span = (4, 13), groups = [''FooBarmd5'']\<rparr>]"
    by code_simp
  moreover have "do_link_patterns sample_ext (link_patterns sample_ext sample_environ) ''see FooBar @acme now'' =
     Inr (''see <a href=\"FooBarmd5\">FooBarmd5</a>'' @
          drop 3 (sample_hash ''<a href=\"http://acme.example.org/\">@acme</a>'') @ ''now'')"
    by code_simp
  moreover have "do_link_patterns (sample_ext\<lparr>space_uri := None\<rparr>)
     (link_patterns (sample_ext\<lparr>space_uri := None\<rparr>) sample_environ) '' FooBar[[A]]'' =
     Inr ('' <a href=\"FooBarmd5\">FooBarmd5</a>'' @ drop 3 (sample_hash ''<a href=\"A\">A</a>''))"
    by code_simp
  ultimately show ?thesis by blast
qed

end
